theory Spec2Isabelle
  imports Main
begin

section \<open>Strings and option values\<close>

text \<open>
  The JavaScript strings of the documents (the source text, the values of nodes, the
  options) are modelled as \<^typ>\<open>string\<close>: one \<^typ>\<open>char\<close> stands for one code unit below 256,
  offsets count code units. The regular expression class \<open>\s\<close> is modelled on these code
  units: 9..13, 32 and 160.

  Upper-casing leaves this range: \<open>toUpperCase\<close> maps the micro sign (181) to the Greek
  capital mu (924), \<open>y\<close> with diaeresis (255) to its capital (376), and the sharp s (223) to
  the two code units \<open>SS\<close>. Its results are therefore lists of code units as numbers.
  \<open>toUpperCase_unit\<close> is \<open>String.prototype.toUpperCase\<close> on one code unit, for the code
  units below 256 and those it maps them to, with the Greek small mu (956), the case
  folding of the micro sign: the ASCII letters \<open>a\<close>..\<open>z\<close> and the Latin-1 letters 224..254
  other than the division sign (247) move down by 32, and a unit without an upper-case form
  is kept. Other code units from 256 up are outside the model and kept as they are.
\<close>

definition units :: "string \<Rightarrow> nat list" where
  "units s = map of_char s"

definition toUpperCase_unit :: "nat \<Rightarrow> nat list" where
  "toUpperCase_unit u =
     (if 97 \<le> u \<and> u \<le> 122 then [u - 32]
      else if u = 181 then [924]
      else if u = 223 then [83, 83]
      else if 224 \<le> u \<and> u \<le> 254 \<and> u \<noteq> 247 then [u - 32]
      else if u = 255 then [376]
      else if u = 956 then [924]
      else [u])"

definition toUpperCase :: "nat list \<Rightarrow> nat list" where
  "toUpperCase s = concat (map toUpperCase_unit s)"

definition is_space :: "char \<Rightarrow> bool" where
  "is_space c = ((of_char c :: nat) \<in> {9, 10, 11, 12, 13, 32, 160})"

text \<open>\<open>s.slice(a, b)\<close> for non-negative \<open>a\<close> and \<open>b\<close>: both are clamped to the length, and the
  result is empty when \<open>b \<le> a\<close>.\<close>

definition slice :: "string \<Rightarrow> nat \<Rightarrow> nat \<Rightarrow> string" where
  "slice s a b = take (b - a) (drop a s)"

text \<open>The decimal numeral of a non-negative integer, as string concatenation renders it:
  the digits of the quotient by ten, then the digit of the remainder.\<close>

definition digit_char :: "nat \<Rightarrow> char" where
  "digit_char d = char_of (d + of_char (CHR ''0'') :: nat)"

fun string_of_nat :: "nat \<Rightarrow> string" where
  "string_of_nat n =
     (let last_digit = digit_char (n mod 10)
      in if n div 10 = 0 then [last_digit] else string_of_nat (n div 10) @ [last_digit])"

declare string_of_nat.simps [simp del]

text \<open>The values a rule can receive as its option.\<close>

datatype js_value = JUndefined | JNull | JBool bool | JNumber nat | JString string

fun truthy :: "js_value \<Rightarrow> bool" where
  "truthy JUndefined = False"
| "truthy JNull = False"
| "truthy (JBool b) = b"
| "truthy (JNumber n) = (n \<noteq> 0)"
| "truthy (JString s) = (s \<noteq> [])"

fun js_to_string :: "js_value \<Rightarrow> string" where
  "js_to_string JUndefined = ''undefined''"
| "js_to_string JNull = ''null''"
| "js_to_string (JBool b) = (if b then ''true'' else ''false'')"
| "js_to_string (JNumber n) = string_of_nat n"
| "js_to_string (JString s) = s"

section \<open>Syntax trees\<close>

text \<open>
  A node of the syntax tree carries its type tag, the fields the rules read (\<open>depth\<close> of a
  heading, \<open>ordered\<close> of a list, \<open>value\<close> of a literal, \<open>alt\<close> of an image; an empty string
  stands for an absent or empty field, which the code does not distinguish), an optional
  position and its children. A line or column of \<open>0\<close> stands for a missing one: the
  libraries treat both as falsy.
\<close>

record point =
  line :: nat
  column :: nat
  offset :: nat

record position =
  start :: point
  endp :: point

datatype node =
  Node (ntype: string) (depth: nat) (ordered: bool) (nvalue: string) (alt: string)
       (position: "position option") (children: "node list")

text \<open>\<open>generated\<close> of unist-util-generated: no position, or a missing line or column at
  either end.\<close>

definition generated :: "node \<Rightarrow> bool" where
  "generated n =
     (case position n of
        None \<Rightarrow> True
      | Some p \<Rightarrow> line (start p) = 0 \<or> column (start p) = 0 \<or>
                 line (endp p) = 0 \<or> column (endp p) = 0)"

text \<open>
  \<open>pointStart\<close> and \<open>pointEnd\<close> of unist-util-position as the rules that read
  \<open>pointStart(node).offset\<close> unguarded use them: always a point, whose missing fields are
  \<open>null\<close>. \<open>null\<close> is \<open>0\<close> here: \<open>slice\<close> converts a \<open>null\<close> offset to \<open>0\<close>, and
  \<open>stringifyPosition\<close> prints a missing line or column as \<open>1\<close>, as it prints \<open>0\<close>.
\<close>

definition null_point :: point where
  "null_point = \<lparr>line = 0, column = 0, offset = 0\<rparr>"

definition pointStart :: "node \<Rightarrow> point" where
  "pointStart n = (case position n of None \<Rightarrow> null_point | Some p \<Rightarrow> start p)"

definition pointEnd :: "node \<Rightarrow> point" where
  "pointEnd n = (case position n of None \<Rightarrow> null_point | Some p \<Rightarrow> endp p)"

definition stringifyPosition :: "point \<Rightarrow> string" where
  "stringifyPosition p =
     string_of_nat (if line p = 0 then 1 else line p) @ '':'' @
     string_of_nat (if column p = 0 then 1 else column p)"

text \<open>The later \<open>pointStart\<close>, which the heading indent rule guards with \<open>!start\<close>: no point
  unless line and column are positive.\<close>

definition pointStart_v5 :: "node \<Rightarrow> point option" where
  "pointStart_v5 n =
     (case position n of
        None \<Rightarrow> None
      | Some p \<Rightarrow> if 0 < line (start p) \<and> 0 < column (start p) then Some (start p) else None)"

text \<open>\<open>toString\<close> of mdast-util-to-string: the value of a literal, else the alternative text
  of an image, else the text of the children, concatenated.\<close>

fun toString :: "node \<Rightarrow> string" where
  "toString (Node t d ord v a p cs) =
     (if v \<noteq> [] then v else if a \<noteq> [] then a else concat (map toString cs))"

section \<open>Files and messages\<close>

datatype place = Place_node node | Place_point point "node list" | Place_none

record vmessage =
  reason :: string
  place :: place
  fatal :: bool

record vfile =
  contents :: string
  messages :: "vmessage list"

text \<open>\<open>file.message\<close> appends a message that is not fatal. \<open>file.fail\<close> appends a fatal one
  and throws it: the rules return an error together with the file as the throw left it.\<close>

datatype error = Fail vmessage | TypeError

definition message :: "string \<Rightarrow> place \<Rightarrow> vfile \<Rightarrow> vfile" where
  "message r p file =
     file\<lparr>messages := messages file @ [\<lparr>reason = r, place = p, fatal = False\<rparr>]\<rparr>"

definition fail :: "string \<Rightarrow> vfile \<Rightarrow> error \<times> vfile" where
  "fail r file =
     (let m = \<lparr>reason = r, place = Place_none, fatal = True\<rparr>
      in (Fail m, file\<lparr>messages := messages file @ [m]\<rparr>))"

section \<open>Tree traversal\<close>

text \<open>
  \<open>visitParents\<close> of unist-util-visit-parents, in pre-order: the visitor is called on a node
  that passes the test, with the chain of its ancestors; \<open>EXIT\<close> ends the whole traversal,
  and so does an exception of the visitor. The state the visitor's closure mutates is
  passed through.
\<close>

datatype 's visit_result = CONTINUE 's | EXIT 's | THROW error 's

fun visitParents_node ::
    "(node \<Rightarrow> bool) \<Rightarrow> (node \<Rightarrow> node list \<Rightarrow> 's \<Rightarrow> 's visit_result) \<Rightarrow>
     node list \<Rightarrow> node \<Rightarrow> 's \<Rightarrow> 's visit_result"
and visitParents_all ::
    "(node \<Rightarrow> bool) \<Rightarrow> (node \<Rightarrow> node list \<Rightarrow> 's \<Rightarrow> 's visit_result) \<Rightarrow>
     node list \<Rightarrow> node list \<Rightarrow> 's \<Rightarrow> 's visit_result"
where
  "visitParents_node test visitor parents (Node t d ord v a p cs) s =
     (case (if test (Node t d ord v a p cs)
            then visitor (Node t d ord v a p cs) parents s else CONTINUE s) of
        CONTINUE s' \<Rightarrow>
          visitParents_all test visitor (parents @ [Node t d ord v a p cs]) cs s'
      | EXIT s' \<Rightarrow> EXIT s'
      | THROW e s' \<Rightarrow> THROW e s')"
| "visitParents_all test visitor parents [] s = CONTINUE s"
| "visitParents_all test visitor parents (c # cs) s =
     (case visitParents_node test visitor parents c s of
        CONTINUE s' \<Rightarrow> visitParents_all test visitor parents cs s'
      | EXIT s' \<Rightarrow> EXIT s'
      | THROW e s' \<Rightarrow> THROW e s')"

text \<open>The test of a traversal: a type tag, or none.\<close>

definition type_test :: "string option \<Rightarrow> node \<Rightarrow> bool" where
  "type_test t n = (case t of None \<Rightarrow> True | Some ty \<Rightarrow> ntype n = ty)"

definition visitParents ::
    "string option \<Rightarrow> (node \<Rightarrow> node list \<Rightarrow> 's \<Rightarrow> 's visit_result) \<Rightarrow> node \<Rightarrow> 's \<Rightarrow>
     's visit_result" where
  "visitParents t visitor tree s = visitParents_node (type_test t) visitor [] tree s"

text \<open>\<open>visit\<close> of unist-util-visit is \<open>visitParents\<close> with a visitor that gets the node, its
  index and its parent; the rules read the node only.\<close>

definition visit ::
    "string option \<Rightarrow> (node \<Rightarrow> 's \<Rightarrow> 's visit_result) \<Rightarrow> node \<Rightarrow> 's \<Rightarrow> 's visit_result" where
  "visit t visitor tree s = visitParents t (\<lambda>n parents. visitor n) tree s"

text \<open>What a rule returns: the file, or the error thrown and the file as it was then.\<close>

definition finish :: "('s \<Rightarrow> vfile) \<Rightarrow> 's visit_result \<Rightarrow> (error \<times> vfile) + vfile" where
  "finish f r =
     (case r of CONTINUE s \<Rightarrow> Inr (f s) | EXIT s \<Rightarrow> Inr (f s) | THROW e s \<Rightarrow> Inl (e, f s))"

text \<open>The nodes of a tree in pre-order, each with its ancestors, and a visitor run over
  such a list: the traversal of a tree is this run (\<open>visitParents_node_run\<close> below).\<close>

fun preorder :: "node list \<Rightarrow> node \<Rightarrow> (node \<times> node list) list" where
  "preorder parents (Node t d ord v a p cs) =
     (Node t d ord v a p cs, parents) #
     concat (map (preorder (parents @ [Node t d ord v a p cs])) cs)"

fun run :: "(node \<Rightarrow> node list \<Rightarrow> 's \<Rightarrow> 's visit_result) \<Rightarrow> (node \<times> node list) list \<Rightarrow> 's \<Rightarrow>
    's visit_result" where
  "run visitor [] s = CONTINUE s"
| "run visitor (x # xs) s =
     (case visitor (fst x) (snd x) s of
        CONTINUE s' \<Rightarrow> run visitor xs s'
      | EXIT s' \<Rightarrow> EXIT s'
      | THROW e s' \<Rightarrow> THROW e s')"

definition visited :: "string option \<Rightarrow> node \<Rightarrow> (node \<times> node list) list" where
  "visited t tree = filter (\<lambda>x. type_test t (fst x)) (preorder [] tree)"

section \<open>no-duplicate-headings-in-section\<close>

text \<open>
  \<open>stack\<close> is a JavaScript array with holes: reading a hole or beyond the length gives
  \<open>undefined\<close>, writing beyond the length extends the array with holes. A scope is an object
  used as a dictionary from the upper-cased heading text to the heading node; every property
  an object inherits has a lower-case letter in its name, so a lookup under an upper-cased
  key finds only what the rule stored. \<open>slice\<close> copies the array, and the scopes stay
  shared with the old array, which is dropped.
\<close>

definition array_get :: "'a option list \<Rightarrow> nat \<Rightarrow> 'a option" where
  "array_get xs i = (if i < length xs then xs ! i else None)"

definition array_set :: "'a option list \<Rightarrow> nat \<Rightarrow> 'a \<Rightarrow> 'a option list" where
  "array_set xs i x =
     (if i < length xs then xs[i := Some x]
      else xs @ replicate (i - length xs) None @ [Some x])"

record dup_state =
  stack :: "(nat list \<rightharpoonup> node) option list"
  dup_file :: vfile

definition duplicate_reason :: "node \<Rightarrow> string" where
  "duplicate_reason duplicate =
     ''Do not use headings with similar content per section ('' @
     stringifyPosition (pointStart duplicate) @ '')''"

text \<open>
  The visitor of the rule. A depth of \<open>0\<close> (no heading of the parser has it) gives the index
  \<open>-1\<close>: the scope is a fresh object stored as a property of the array that \<open>slice\<close> does
  not copy, no duplicate is found, and the stack becomes empty.
\<close>

definition no_duplicate_headings_visitor :: "node \<Rightarrow> dup_state \<Rightarrow> dup_state" where
  "no_duplicate_headings_visitor node s =
     (if depth node = 0 then s\<lparr>stack := []\<rparr>
      else
        let value = toUpperCase (units (toString node));
            index = depth node - 1;
            scope = (case array_get (stack s) index of Some sc \<Rightarrow> sc | None \<Rightarrow> Map.empty);
            duplicate = scope value;
            file = (case duplicate of
                      Some dup \<Rightarrow>
                        if \<not> generated node
                        then message (duplicate_reason dup) (Place_node node) (dup_file s)
                        else dup_file s
                    | None \<Rightarrow> dup_file s)
        in \<lparr>stack = take (depth node) (array_set (stack s) index (scope(value \<mapsto> node))),
            dup_file = file\<rparr>)"

definition remarkLintNoDuplicateHeadingsInSection :: "node \<Rightarrow> vfile \<Rightarrow> (error \<times> vfile) + vfile" where
  "remarkLintNoDuplicateHeadingsInSection tree file =
     finish dup_file
       (visit (Some ''heading'') (\<lambda>node s. CONTINUE (no_duplicate_headings_visitor node s)) tree
          \<lparr>stack = [], dup_file = file\<rparr>)"

section \<open>no-heading-indent\<close>

text \<open>\<open>pluralize\<close> as the rule uses it, on the word \<open>space\<close>: the singular for a count of
  one, else the plural in \<open>s\<close>.\<close>

definition pluralize :: "string \<Rightarrow> nat \<Rightarrow> string" where
  "pluralize word count = (if count = 1 then word else word @ ''s'')"

definition heading_indent_reason :: "nat \<Rightarrow> string" where
  "heading_indent_reason actual =
     ''Unexpected `'' @ string_of_nat actual @ ''` '' @ pluralize ''space'' actual @
     '' before heading, expected `0` spaces, remove'' @ '' `'' @ string_of_nat actual @
     ''` '' @ pluralize ''space'' actual"

definition no_heading_indent_visitor :: "node \<Rightarrow> node list \<Rightarrow> vfile \<Rightarrow> vfile" where
  "no_heading_indent_visitor node parents file =
     (case pointStart_v5 node of
        None \<Rightarrow> file
      | Some start_point \<Rightarrow>
          if parents = [] then file
          else if ntype (last parents) \<noteq> ''root'' then file
          else
            let actual = column start_point - 1
            in if actual \<noteq> 0
               then message (heading_indent_reason actual)
                      (Place_point start_point (parents @ [node])) file
               else file)"

definition remarkLintNoHeadingIndent :: "node \<Rightarrow> vfile \<Rightarrow> (error \<times> vfile) + vfile" where
  "remarkLintNoHeadingIndent tree file =
     finish (\<lambda>f. f)
       (visitParents (Some ''heading'')
          (\<lambda>node parents f. CONTINUE (no_heading_indent_visitor node parents f)) tree file)"

section \<open>first-heading-level\<close>

text \<open>\<open>value.match(/<h([1-6])/)\<close>: the leftmost \<open><h\<close> followed by a digit from 1 to 6,
  anywhere in the value; \<open>infer\<close> returns the digit as a number.\<close>

definition heading_digit :: "string \<Rightarrow> nat option" where
  "heading_digit cs =
     (case cs of
        h # d # _ \<Rightarrow>
          if h = CHR ''h'' \<and> d \<in> set ''123456'' then Some (of_char d - 48) else None
      | _ \<Rightarrow> None)"

fun match_re :: "string \<Rightarrow> nat option" where
  "match_re [] = None"
| "match_re (c # cs) =
     (if c = CHR ''<'' \<and> heading_digit cs \<noteq> None then heading_digit cs else match_re cs)"

definition infer :: "node \<Rightarrow> nat option" where
  "infer node = match_re (nvalue node)"

definition first_heading_level_visitor :: "js_value \<Rightarrow> node \<Rightarrow> vfile \<Rightarrow> vfile visit_result" where
  "first_heading_level_visitor preferred node file =
     (if \<not> generated node then
        let rank = (if ntype node = ''heading'' then Some (depth node)
                    else if ntype node = ''html'' then infer node
                    else None)
        in (case rank of
              Some r \<Rightarrow>
                EXIT (if JNumber r \<noteq> preferred
                      then message (''First heading level should be `'' @
                                    js_to_string preferred @ ''`'') (Place_node node) file
                      else file)
            | None \<Rightarrow> CONTINUE file)
      else CONTINUE file)"

definition remarkLintFirstHeadingLevel :: "node \<Rightarrow> vfile \<Rightarrow> js_value \<Rightarrow> (error \<times> vfile) + vfile" where
  "remarkLintFirstHeadingLevel tree file option =
     (let preferred = (if truthy option \<and> option \<noteq> JBool True then option else JNumber 1)
      in finish (\<lambda>f. f) (visit None (first_heading_level_visitor preferred) tree file))"

section \<open>unordered-list-marker-style\<close>

text \<open>The table of styles. The key of \<open>undefined\<close> is the string \<open>undefined\<close>; no inherited
  property of the object is \<open>true\<close>.\<close>

definition styles :: "string \<rightharpoonup> bool" where
  "styles = [''-'' \<mapsto> True, ''*'' \<mapsto> True, ''+'' \<mapsto> True, ''undefined'' \<mapsto> True]"

definition property_key :: "string option \<Rightarrow> string" where
  "property_key preferred = (case preferred of None \<Rightarrow> ''undefined'' | Some s \<Rightarrow> s)"

text \<open>\<open>replace(/\[[x ]?]\s*$/i, '')\<close>: the leftmost place where a check box and white space
  up to the end of the string start is cut off there. \<open>replace(/\s/g, '')\<close> drops all white
  space.\<close>

definition checkbox_close :: "string \<Rightarrow> bool" where
  "checkbox_close r = (case r of c # w \<Rightarrow> c = CHR '']'' \<and> list_all is_space w | [] \<Rightarrow> False)"

definition checkbox_at :: "string \<Rightarrow> bool" where
  "checkbox_at s =
     (case s of
        c # r \<Rightarrow>
          c = CHR ''['' \<and>
          ((case r of x # r' \<Rightarrow> x \<in> set ''xX '' \<and> checkbox_close r' | [] \<Rightarrow> False) \<or>
           checkbox_close r)
      | [] \<Rightarrow> False)"

fun strip_checkbox :: "string \<Rightarrow> string" where
  "strip_checkbox [] = []"
| "strip_checkbox (c # cs) = (if checkbox_at (c # cs) then [] else c # strip_checkbox cs)"

definition strip_space :: "string \<Rightarrow> string" where
  "strip_space s = filter (\<lambda>c. \<not> is_space c) s"

record style_state =
  preferred :: "string option"
  style_file :: vfile

definition marker_of :: "string \<Rightarrow> node \<Rightarrow> string" where
  "marker_of value child =
     strip_space (strip_checkbox
       (slice value (offset (pointStart child))
          (offset (case children child of [] \<Rightarrow> null_point | c # _ \<Rightarrow> pointStart c))))"

text \<open>The body of the loop over the items of one list, and the loop.\<close>

definition list_item :: "string \<Rightarrow> node \<Rightarrow> style_state \<Rightarrow> style_state" where
  "list_item value child s =
     (if \<not> generated child then
        let marker = marker_of value child
        in (case preferred s of
              None \<Rightarrow> s\<lparr>preferred := Some marker\<rparr>
            | Some pref \<Rightarrow>
                if pref \<noteq> [] then
                  (if marker \<noteq> pref
                   then s\<lparr>style_file := message (''Marker style should be `'' @ pref @ ''`'')
                                           (Place_node child) (style_file s)\<rparr>
                   else s)
                else s\<lparr>preferred := Some marker\<rparr>)
      else s)"

fun list_items :: "string \<Rightarrow> node list \<Rightarrow> style_state \<Rightarrow> style_state" where
  "list_items value [] s = s"
| "list_items value (child # rest) s = list_items value rest (list_item value child s)"

definition unordered_list_visitor :: "string \<Rightarrow> node \<Rightarrow> style_state \<Rightarrow> style_state" where
  "unordered_list_visitor value node s =
     (if ordered node then s else list_items value (children node) s)"

definition marker_style_fail_reason :: "string \<Rightarrow> string" where
  "marker_style_fail_reason pref =
     ''Incorrect unordered list item marker style `'' @ pref @
     ''`: use either `'-'`, `'*'`, or `'+'`''"

definition remarkLintUnorderedListMarkerStyle ::
    "node \<Rightarrow> vfile \<Rightarrow> js_value \<Rightarrow> (error \<times> vfile) + vfile" where
  "remarkLintUnorderedListMarkerStyle tree file option =
     (let value = contents file;
          pref = (case option of
                    JString s \<Rightarrow> if s \<noteq> ''consistent'' then Some s else None
                  | _ \<Rightarrow> None)
      in if styles (property_key pref) \<noteq> Some True
         then Inl (fail (marker_style_fail_reason (property_key pref)) file)
         else finish style_file
                (visit (Some ''list'') (\<lambda>node s. CONTINUE (unordered_list_visitor value node s))
                   tree \<lparr>preferred = pref, style_file = file\<rparr>))"

section \<open>definition-spacing\<close>

text \<open>
  \<open>match(label)\<close> for \<open>label = /^\s*\[((?:\\[\s\S]|[^[\]])+)]/\<close>, with the backtracking of
  the matcher: at each place of the group an escape (a backslash and any code unit) is tried
  first, then one code unit that is no bracket, then, after at least one of these, the
  closing bracket. The result is the text of group 1.
\<close>

fun label_rest :: "string \<Rightarrow> string option" where
  "label_rest [] = None"
| "label_rest [c] = (if c = CHR '']'' then Some [] else None)"
| "label_rest (c # d # r) =
     (case (if c = CHR 0x5C then map_option (\<lambda>g. c # d # g) (label_rest r) else None) of
        Some g \<Rightarrow> Some g
      | None \<Rightarrow>
          (case (if c \<noteq> CHR ''['' \<and> c \<noteq> CHR '']''
                 then map_option (\<lambda>g. c # g) (label_rest (d # r)) else None) of
             Some g \<Rightarrow> Some g
           | None \<Rightarrow> if c = CHR '']'' then Some [] else None))"

definition label_first :: "string \<Rightarrow> string option" where
  "label_first s =
     (case s of
        [] \<Rightarrow> None
      | c # r \<Rightarrow>
          (case (if c = CHR 0x5C
                 then (case r of d # r' \<Rightarrow> map_option (\<lambda>g. c # d # g) (label_rest r') | [] \<Rightarrow> None)
                 else None) of
             Some g \<Rightarrow> Some g
           | None \<Rightarrow>
               if c \<noteq> CHR ''['' \<and> c \<noteq> CHR '']''
               then map_option (\<lambda>g. c # g) (label_rest r) else None))"

definition match_label :: "string \<Rightarrow> string option" where
  "match_label s =
     (case dropWhile is_space s of
        c # r \<Rightarrow> if c = CHR ''['' then label_first r else None
      | [] \<Rightarrow> None)"

text \<open>\<open>/[ \t\n]{2,}/.test\<close>: two adjacent code units, each a space, a tab or a line feed.\<close>

fun consecutive_whitespace :: "string \<Rightarrow> bool" where
  "consecutive_whitespace (a # b # cs) =
     ((a \<in> set [CHR '' '', CHR 0x09, CHR 0x0A] \<and> b \<in> set [CHR '' '', CHR 0x09, CHR 0x0A]) \<or>
      consecutive_whitespace (b # cs))"
| "consecutive_whitespace cs = False"

definition definition_spacing_visitor :: "string \<Rightarrow> node \<Rightarrow> vfile \<Rightarrow> vfile visit_result" where
  "definition_spacing_visitor value node file =
     (if (ntype node = ''definition'' \<or> ntype node = ''footnoteDefinition'') \<and> \<not> generated node
      then
        let start_offset = offset (pointStart node);
            end_offset = offset (pointEnd node)
        in (case match_label (slice value start_offset end_offset) of
              None \<Rightarrow> THROW TypeError file
            | Some captured \<Rightarrow>
                if consecutive_whitespace captured
                then CONTINUE (message ''Do not use consecutive whitespace in definition labels''
                                 (Place_node node) file)
                else CONTINUE file)
      else CONTINUE file)"

definition remarkLintDefinitionSpacing :: "node \<Rightarrow> vfile \<Rightarrow> (error \<times> vfile) + vfile" where
  "remarkLintDefinitionSpacing tree file =
     (let value = contents file
      in finish (\<lambda>f. f) (visit None (definition_spacing_visitor value) tree file))"

section \<open>Notions used in the statements\<close>

text \<open>The key of a heading in its scope, the headings of a tree in document order, the run
  of the duplicate-heading visitor over them, and the messages the visit of the \<open>j\<close>-th
  heading adds.\<close>

definition heading_key :: "node \<Rightarrow> nat list" where
  "heading_key n = toUpperCase (units (toString n))"

definition headings :: "node \<Rightarrow> node list" where
  "headings tree = map fst (visited (Some ''heading'') tree)"

definition scan :: "node list \<Rightarrow> dup_state \<Rightarrow> dup_state" where
  "scan hs s = foldl (\<lambda>s n. no_duplicate_headings_visitor n s) s hs"

definition heading_diagnostics :: "vfile \<Rightarrow> node list \<Rightarrow> nat \<Rightarrow> vmessage list" where
  "heading_diagnostics file hs j =
     (let s = scan (take j hs) \<lparr>stack = [], dup_file = file\<rparr>
      in drop (length (messages (dup_file s)))
           (messages (dup_file (no_duplicate_headings_visitor (hs ! j) s))))"

definition duplicate_message :: "node \<Rightarrow> node \<Rightarrow> vmessage" where
  "duplicate_message first second =
     \<lparr>reason = duplicate_reason first, place = Place_node second, fatal = False\<rparr>"

text \<open>What the scope of depth \<open>d\<close> holds for a key, and the same read off the headings seen
  so far, latest first: the latest heading of depth \<open>d\<close> with that key that no shallower
  heading follows.\<close>

definition scope_lookup :: "dup_state \<Rightarrow> nat \<Rightarrow> nat list \<Rightarrow> node option" where
  "scope_lookup s d v = (case array_get (stack s) (d - 1) of Some sc \<Rightarrow> sc v | None \<Rightarrow> None)"

fun open_heading :: "node list \<Rightarrow> nat \<Rightarrow> nat list \<Rightarrow> node option" where
  "open_heading [] d v = None"
| "open_heading (h # hs) d v =
     (if depth h < d then None
      else if depth h = d \<and> heading_key h = v then Some h
      else open_heading hs d v)"

text \<open>The rank of a node for the first-heading-level rule, the preferred rank of an option,
  and the check of the node the traversal stops at.\<close>

definition rank_of :: "node \<Rightarrow> nat option" where
  "rank_of n = (if ntype n = ''heading'' then Some (depth n)
                else if ntype n = ''html'' then infer n else None)"

definition preferred_rank :: "js_value \<Rightarrow> js_value" where
  "preferred_rank option = (if truthy option \<and> option \<noteq> JBool True then option else JNumber 1)"

definition first_heading_check :: "js_value \<Rightarrow> node \<Rightarrow> vfile \<Rightarrow> vfile" where
  "first_heading_check pref n file =
     (case rank_of n of
        Some r \<Rightarrow>
          if JNumber r \<noteq> pref
          then message (''First heading level should be `'' @ js_to_string pref @ ''`'')
                 (Place_node n) file
          else file
      | None \<Rightarrow> file)"

text \<open>An opening tag of a heading of rank \<open>r\<close> at index \<open>i\<close> of a string.\<close>

definition tag_at :: "string \<Rightarrow> nat \<Rightarrow> nat \<Rightarrow> bool" where
  "tag_at s i r =
     (case drop i s of c # cs \<Rightarrow> c = CHR ''<'' \<and> heading_digit cs = Some r | [] \<Rightarrow> False)"



text \<open>The source text of a definition, and a definition the rule checks whose text the label
  pattern does not match.\<close>

definition definition_text :: "string \<Rightarrow> node \<Rightarrow> string" where
  "definition_text value n = slice value (offset (pointStart n)) (offset (pointEnd n))"

definition unmatched_definition :: "string \<Rightarrow> node \<Rightarrow> bool" where
  "unmatched_definition value n =
     ((ntype n = ''definition'' \<or> ntype n = ''footnoteDefinition'') \<and> \<not> generated n \<and>
      match_label (definition_text value n) = None)"

text \<open>The file a rule leaves, the error it throws, and the messages it adds to the file it
  was given.\<close>

definition file_of :: "(error \<times> vfile) + vfile \<Rightarrow> vfile" where
  "file_of r = (case r of Inl (e, f) \<Rightarrow> f | Inr f \<Rightarrow> f)"

definition thrown :: "(error \<times> vfile) + vfile \<Rightarrow> error option" where
  "thrown r = (case r of Inl (e, f) \<Rightarrow> Some e | Inr f \<Rightarrow> None)"

definition new_messages :: "vfile \<Rightarrow> (error \<times> vfile) + vfile \<Rightarrow> vmessage list" where
  "new_messages before r = drop (length (messages before)) (messages (file_of r))"

definition erase :: "vfile \<Rightarrow> vfile" where
  "erase f = f\<lparr>messages := []\<rparr>"

definition prepend :: "vmessage list \<Rightarrow> vfile \<Rightarrow> vfile" where
  "prepend ms f = f\<lparr>messages := ms @ messages f\<rparr>"

fun state_of :: "'s visit_result \<Rightarrow> 's" where
  "state_of (CONTINUE s) = s"
| "state_of (EXIT s) = s"
| "state_of (THROW e s) = s"

text \<open>A rule that reads nothing of the messages its file already holds: with more messages
  in front it does the same and leaves them in front, and it changes nothing but the
  messages.\<close>

definition independent_of_messages :: "(vfile \<Rightarrow> (error \<times> vfile) + vfile) \<Rightarrow> bool" where
  "independent_of_messages rule =
     ((\<forall>ms f. rule (prepend ms f) = map_sum (map_prod id (prepend ms)) (prepend ms) (rule f)) \<and>
      (\<forall>f. erase (file_of (rule f)) = erase f))"

text \<open>A rule run again on the file its first run left: it adds the same messages, throws
  the same error, and the source text is the one it was given.\<close>

definition same_on_rerun :: "(vfile \<Rightarrow> (error \<times> vfile) + vfile) \<Rightarrow> vfile \<Rightarrow> bool" where
  "same_on_rerun rule file =
     (new_messages (file_of (rule file)) (rule (file_of (rule file))) =
        new_messages file (rule file) \<and>
      thrown (rule (file_of (rule file))) = thrown (rule file) \<and>
      contents (file_of (rule file)) = contents file)"

section \<open>Example documents\<close>

definition span :: "nat \<Rightarrow> nat \<Rightarrow> nat \<Rightarrow> nat \<Rightarrow> nat \<Rightarrow> nat \<Rightarrow> position option" where
  "span l c off l' c' off' =
     Some \<lparr>start = \<lparr>line = l, column = c, offset = off\<rparr>,
           endp = \<lparr>line = l', column = c', offset = off'\<rparr>\<rparr>"

definition text_node :: "string \<Rightarrow> position option \<Rightarrow> node" where
  "text_node v p = Node ''text'' 0 False v [] p []"

definition heading :: "nat \<Rightarrow> position option \<Rightarrow> string \<Rightarrow> node" where
  "heading d p v = Node ''heading'' d False [] [] p [text_node v p]"

definition html_node :: "string \<Rightarrow> position option \<Rightarrow> node" where
  "html_node v p = Node ''html'' 0 False v [] p []"

definition parent_node :: "string \<Rightarrow> position option \<Rightarrow> node list \<Rightarrow> node" where
  "parent_node t p cs = Node t 0 False [] [] p cs"

definition root_node :: "node list \<Rightarrow> node" where
  "root_node cs = parent_node ''root'' (span 1 1 0 9 1 99) cs"

definition empty_file :: vfile where
  "empty_file = \<lparr>contents = [], messages = []\<rparr>"

text \<open>The documents of the rule's own examples: \<open>## Foxtrot\<close>, \<open>### Golf\<close>, \<open>### Golf\<close>, and the
  first four headings of \<open>## Alpha\<close>, \<open>### Bravo\<close>, \<open>## Charlie\<close>, \<open>### Bravo\<close>.\<close>

definition foxtrot :: "node list" where
  "foxtrot = [heading 2 (span 1 1 0 1 11 10) ''Foxtrot'', heading 3 (span 3 1 12 3 9 20) ''Golf'',
              heading 3 (span 5 1 22 5 9 30) ''Golf'']"

definition alpha :: "node list" where
  "alpha = [heading 2 (span 1 1 0 1 9 8) ''Alpha'', heading 3 (span 3 1 10 3 10 19) ''Bravo'',
            heading 2 (span 5 1 21 5 11 31) ''Charlie'', heading 3 (span 7 1 33 7 10 42) ''Bravo'']"

text \<open>\<open>## Alpha\<close>, \<open>## Bravo\<close>, \<open>## Alpha\<close>: a heading of equal depth between two equal ones.\<close>

definition equal_depth :: "node list" where
  "equal_depth = [heading 2 (span 1 1 0 1 9 8) ''Alpha'', heading 2 (span 3 1 10 3 9 18) ''Bravo'',
                  heading 2 (span 5 1 20 5 9 28) ''Alpha'']"

text \<open>A generated heading before an authored one of the same depth and text, and a generated
  heading of rank 2 before an authored one of rank 3.\<close>

definition generated_first :: "node list" where
  "generated_first = [heading 1 None ''Alpha'', heading 1 (span 3 1 9 3 8 16) ''Alpha'']"

definition generated_rank :: "node list" where
  "generated_rank = [heading 2 None ''Alpha'', heading 3 (span 3 1 9 3 10 18) ''Bravo'']"

text \<open>An html node whose value holds a heading tag that does not lead it.\<close>

definition nested_html :: node where
  "nested_html = html_node ''<div><h2>Bravo</h2></div>'' (span 1 1 0 1 26 25)"

text \<open>The list \<open>* Foo\<close>, \<open>- Bar\<close>, \<open>+ Baz\<close> of the marker rule's example, and its file.\<close>

definition markers_file :: vfile where
  "markers_file =
     \<lparr>contents = ''* Foo'' @ [CHR 0x0A] @ ''- Bar'' @ [CHR 0x0A] @ ''+ Baz'', messages = []\<rparr>"

definition markers_items :: "node list" where
  "markers_items =
     [parent_node ''listItem'' (span 1 1 0 1 6 5)
        [parent_node ''paragraph'' (span 1 3 2 1 6 5) [text_node ''Foo'' (span 1 3 2 1 6 5)]],
      parent_node ''listItem'' (span 2 1 6 2 6 11)
        [parent_node ''paragraph'' (span 2 3 8 2 6 11) [text_node ''Bar'' (span 2 3 8 2 6 11)]],
      parent_node ''listItem'' (span 3 1 12 3 6 17)
        [parent_node ''paragraph'' (span 3 3 14 3 6 17) [text_node ''Baz'' (span 3 3 14 3 6 17)]]]"

definition markers_tree :: node where
  "markers_tree = root_node [parent_node ''list'' (span 1 1 0 3 6 17) markers_items]"

text \<open>A heading indented by three spaces in the root, and one indented in a block quote.\<close>

definition indented :: node where
  "indented = heading 1 (span 1 4 3 1 13 12) ''Mercury''"

definition quoted :: node where
  "quoted = heading 1 (span 3 6 19 3 13 26) ''Venus''"

definition indented_tree :: node where
  "indented_tree = root_node [indented, parent_node ''blockquote'' (span 3 1 14 3 13 26) [quoted]]"

definition indented_report :: vfile where
  "indented_report =
     empty_file\<lparr>messages :=
       [\<lparr>reason = ''Unexpected `3` spaces before heading, expected `0` spaces, remove `3` spaces'',
         place = Place_point \<lparr>line = 1, column = 4, offset = 3\<rparr> [indented_tree, indented],
         fatal = False\<rparr>]\<rparr>"

text \<open>A definition node over the text \<open>[]: x\<close>, whose label is empty, and one over a label
  with two spaces in a row.\<close>

definition empty_label_file :: vfile where
  "empty_label_file = \<lparr>contents = ''[]: x'', messages = []\<rparr>"

definition spaced_label_file :: vfile where
  "spaced_label_file = \<lparr>contents = ''[a  b]: x'', messages = []\<rparr>"

definition definition_node :: "nat \<Rightarrow> node" where
  "definition_node len = parent_node ''definition'' (span 1 1 0 1 (Suc len) len) []"

section \<open>The traversal as a run over the pre-order list\<close>

lemma run_append:
  "run visitor (xs @ ys) s =
     (case run visitor xs s of
        CONTINUE s' \<Rightarrow> run visitor ys s'
      | EXIT s' \<Rightarrow> EXIT s'
      | THROW e s' \<Rightarrow> THROW e s')"
  by (induction xs arbitrary: s) (auto split: visit_result.splits)

lemma visitParents_node_run:
  "visitParents_node test visitor parents n s =
     run visitor (filter (\<lambda>x. test (fst x)) (preorder parents n)) s"
  and visitParents_all_run:
  "visitParents_all test visitor parents cs s =
     run visitor (filter (\<lambda>x. test (fst x)) (concat (map (preorder parents) cs))) s"
proof (induction test visitor parents n s and test visitor parents cs s
       rule: visitParents_node_visitParents_all.induct)
  case (1 test visitor parents t d ord v a p cs s)
  then show ?case by (auto split: visit_result.splits)
next
  case (2 test visitor parents s)
  then show ?case by simp
next
  case (3 test visitor parents c cs s)
  then show ?case by (auto simp: run_append split: visit_result.splits)
qed

lemma run_continue:
  "run (\<lambda>n ps s. CONTINUE (f n ps s)) xs s =
     CONTINUE (foldl (\<lambda>s x. f (fst x) (snd x) s) s xs)"
  by (induction xs arbitrary: s) auto

lemma finish_continue: "finish f (CONTINUE s) = Inr (f s)"
  by (simp add: finish_def)

section \<open>Duplicate headings in a section\<close>

lemma array_get_take:
  "array_get (take n xs) i = (if i < n then array_get xs i else None)"
  by (auto simp: array_get_def)

lemma array_get_set:
  "array_get (array_set xs j x) i = (if i = j then Some x else array_get xs i)"
  by (auto simp: array_get_def array_set_def nth_append nth_Cons')

lemma rule_scan:
  "remarkLintNoDuplicateHeadingsInSection tree file =
     Inr (dup_file (scan (headings tree) \<lparr>stack = [], dup_file = file\<rparr>))"
  by (simp add: remarkLintNoDuplicateHeadingsInSection_def visit_def visitParents_def
      visitParents_node_run run_continue finish_def headings_def visited_def scan_def
      foldl_map)

text \<open>One visit: what the scopes hold afterwards, and the messages it adds.\<close>

lemma visitor_lookup:
  assumes "1 \<le> depth h" "1 \<le> d"
  shows "scope_lookup (no_duplicate_headings_visitor h s) d v =
     (if depth h < d then None
      else if depth h = d \<and> heading_key h = v then Some h
      else scope_lookup s d v)"
  using assms
  by (auto simp: scope_lookup_def no_duplicate_headings_visitor_def Let_def array_get_take
      array_get_set heading_key_def split: option.splits)

lemma visitor_messages:
  assumes "1 \<le> depth h"
  shows "messages (dup_file (no_duplicate_headings_visitor h s)) =
     messages (dup_file s) @
     (case scope_lookup s (depth h) (heading_key h) of
        Some dup \<Rightarrow> if generated h then [] else [duplicate_message dup h]
      | None \<Rightarrow> [])"
  using assms
  by (auto simp: scope_lookup_def no_duplicate_headings_visitor_def Let_def message_def
      heading_key_def duplicate_message_def split: option.splits)

lemma visitor_appends:
  "\<exists>ms. messages (dup_file (no_duplicate_headings_visitor h s)) = messages (dup_file s) @ ms"
  by (auto simp: no_duplicate_headings_visitor_def Let_def message_def split: option.splits)

lemma visitor_contents:
  "contents (dup_file (no_duplicate_headings_visitor h s)) = contents (dup_file s)"
  by (auto simp: no_duplicate_headings_visitor_def Let_def message_def split: option.splits)

lemma scan_snoc: "scan (hs @ [h]) s = no_duplicate_headings_visitor h (scan hs s)"
  by (simp add: scan_def)

text \<open>The invariant of the stack: after the headings \<open>hs\<close>, the scope of depth \<open>d\<close> holds for
  each key the latest heading of that depth and key that no shallower heading follows.\<close>

lemma scan_lookup:
  assumes "\<forall>h\<in>set hs. 1 \<le> depth h" "1 \<le> d"
  shows "scope_lookup (scan hs \<lparr>stack = [], dup_file = file\<rparr>) d v = open_heading (rev hs) d v"
  using assms
proof (induction hs rule: rev_induct)
  case Nil
  then show ?case by (simp add: scan_def scope_lookup_def array_get_def)
next
  case (snoc h hs)
  then show ?case by (simp add: scan_snoc visitor_lookup)
qed

lemma heading_diagnostics_open:
  assumes "\<forall>h\<in>set hs. 1 \<le> depth h" "j < length hs"
  shows "heading_diagnostics file hs j =
     (case open_heading (rev (take j hs)) (depth (hs ! j)) (heading_key (hs ! j)) of
        Some dup \<Rightarrow> if generated (hs ! j) then [] else [duplicate_message dup (hs ! j)]
      | None \<Rightarrow> [])"
proof -
  have d: "1 \<le> depth (hs ! j)" using assms by simp
  have t: "\<forall>h\<in>set (take j hs). 1 \<le> depth h" using assms(1) by (meson in_set_takeD)
  show ?thesis
    by (simp add: heading_diagnostics_def Let_def visitor_messages [OF d] scan_lookup [OF t d])
qed

lemma heading_diagnostics_snoc:
  "j < length hs \<Longrightarrow> heading_diagnostics file (hs @ [h]) j = heading_diagnostics file hs j"
  by (simp add: heading_diagnostics_def nth_append)

lemma scan_file:
  "dup_file (scan hs \<lparr>stack = [], dup_file = file\<rparr>) =
     file\<lparr>messages := messages file @ concat (map (heading_diagnostics file hs) [0..<length hs])\<rparr>"
proof (induction hs rule: rev_induct)
  case Nil
  then show ?case by (simp add: scan_def)
next
  case (snoc h hs)
  let ?s = "scan hs \<lparr>stack = [], dup_file = file\<rparr>"
  obtain ms where ms:
    "messages (dup_file (no_duplicate_headings_visitor h ?s)) = messages (dup_file ?s) @ ms"
    using visitor_appends by blast
  have last: "heading_diagnostics file (hs @ [h]) (length hs) = ms"
    by (simp add: heading_diagnostics_def ms)
  have init: "map (heading_diagnostics file (hs @ [h])) [0..<length hs] =
              map (heading_diagnostics file hs) [0..<length hs]"
    by (simp add: heading_diagnostics_snoc)
  have m: "messages (dup_file (scan (hs @ [h]) \<lparr>stack = [], dup_file = file\<rparr>)) =
        messages file @
        concat (map (heading_diagnostics file (hs @ [h])) [0..<length (hs @ [h])])"
    by (simp add: scan_snoc ms snoc.IH last init)
  have c: "contents (dup_file (scan (hs @ [h]) \<lparr>stack = [], dup_file = file\<rparr>)) = contents file"
    by (simp add: scan_snoc visitor_contents snoc.IH)
  show ?case using m c by (intro vfile.equality) simp_all
qed

text \<open>The open heading of a depth and key, by indices into the headings visited so far.\<close>

lemma open_heading_found:
  assumes "i < j" "j \<le> length hs" "depth (hs ! i) = d" "heading_key (hs ! i) = v"
    "\<forall>k. i < k \<and> k < j \<longrightarrow>
       d \<le> depth (hs ! k) \<and> \<not> (depth (hs ! k) = d \<and> heading_key (hs ! k) = v)"
  shows "open_heading (rev (take j hs)) d v = Some (hs ! i)"
  using assms
proof (induction j)
  case 0
  then show ?case by simp
next
  case (Suc j)
  then have j: "j < length hs" by simp
  show ?case
  proof (cases "i = j")
    case True
    with Suc.prems j show ?thesis by (simp add: take_Suc_conv_app_nth)
  next
    case False
    with Suc.prems have ij: "i < j" by simp
    from Suc.prems ij
    have here: "d \<le> depth (hs ! j) \<and> \<not> (depth (hs ! j) = d \<and> heading_key (hs ! j) = v)"
      by simp
    have "open_heading (rev (take j hs)) d v = Some (hs ! i)"
      using Suc.IH [OF ij] Suc.prems j by simp
    with here j show ?thesis by (auto simp: take_Suc_conv_app_nth)
  qed
qed

lemma open_heading_index:
  assumes "j \<le> length hs" "open_heading (rev (take j hs)) d v = Some h"
  shows "\<exists>i<j. h = hs ! i \<and> depth (hs ! i) = d \<and> heading_key (hs ! i) = v \<and>
           (\<forall>k. i < k \<and> k < j \<longrightarrow> d \<le> depth (hs ! k))"
  using assms
proof (induction j)
  case 0
  then show ?case by simp
next
  case (Suc j)
  then have j: "j < length hs" by simp
  from Suc.prems j have o: "open_heading (hs ! j # rev (take j hs)) d v = Some h"
    by (simp add: take_Suc_conv_app_nth)
  show ?case
  proof (cases "depth (hs ! j) = d \<and> heading_key (hs ! j) = v")
    case True
    with o have "h = hs ! j" by (auto split: if_splits)
    with True show ?thesis by (intro exI [of _ j]) auto
  next
    case False
    with o have ge: "d \<le> depth (hs ! j)" and r: "open_heading (rev (take j hs)) d v = Some h"
      by (auto split: if_splits)
    from Suc.IH [OF _ r] j obtain i where i: "i < j" "h = hs ! i" "depth (hs ! i) = d"
      "heading_key (hs ! i) = v" "\<forall>k. i < k \<and> k < j \<longrightarrow> d \<le> depth (hs ! k)"
      by auto
    have "\<forall>k. i < k \<and> k < Suc j \<longrightarrow> d \<le> depth (hs ! k)"
      using i(5) ge by (auto simp: less_Suc_eq)
    with i show ?thesis by (intro exI [of _ i]) auto
  qed
qed

text \<open>
  Claim C1, as the code has it. Let \<open>hs\<close> be the headings of a tree in document order, each
  of depth at least 1. The messages of the rule are those its visits add, in order. The
  \<open>j\<close>-th heading adds exactly one message, citing the start of the \<open>i\<close>-th heading, when it
  is not generated, the \<open>i\<close>-th heading is the latest earlier one of the same depth and
  normalized text, and no heading strictly shallower lies between the two; headings of equal
  or greater depth between them do not matter. It adds no message when a strictly shallower
  heading lies between it and every earlier heading of its depth and normalized text.
\<close>

theorem duplicate_heading_in_section:
  assumes "hs = headings tree" and "\<forall>h\<in>set hs. 1 \<le> depth h" and "j < length hs"
  shows
    "remarkLintNoDuplicateHeadingsInSection tree file =
       Inr (file\<lparr>messages := messages file @
              concat (map (heading_diagnostics file hs) [0..<length hs])\<rparr>) \<and>
     (\<forall>i<j. depth (hs ! i) = depth (hs ! j) \<and> heading_key (hs ! i) = heading_key (hs ! j) \<and>
        (\<forall>k. i < k \<and> k < j \<longrightarrow>
           depth (hs ! j) \<le> depth (hs ! k) \<and>
           \<not> (depth (hs ! k) = depth (hs ! j) \<and> heading_key (hs ! k) = heading_key (hs ! j))) \<longrightarrow>
        heading_diagnostics file hs j =
          (if generated (hs ! j) then [] else [duplicate_message (hs ! i) (hs ! j)])) \<and>
     ((\<forall>i<j. depth (hs ! i) = depth (hs ! j) \<and> heading_key (hs ! i) = heading_key (hs ! j) \<longrightarrow>
         (\<exists>k. i < k \<and> k < j \<and> depth (hs ! k) < depth (hs ! j))) \<longrightarrow>
        heading_diagnostics file hs j = [])"
proof (intro conjI allI impI)
  show "remarkLintNoDuplicateHeadingsInSection tree file =
       Inr (file\<lparr>messages := messages file @
              concat (map (heading_diagnostics file hs) [0..<length hs])\<rparr>)"
    by (simp add: rule_scan scan_file assms(1))
next
  fix i
  assume "i < j" and
    h: "depth (hs ! i) = depth (hs ! j) \<and> heading_key (hs ! i) = heading_key (hs ! j) \<and>
        (\<forall>k. i < k \<and> k < j \<longrightarrow>
           depth (hs ! j) \<le> depth (hs ! k) \<and>
           \<not> (depth (hs ! k) = depth (hs ! j) \<and> heading_key (hs ! k) = heading_key (hs ! j)))"
  then have "open_heading (rev (take j hs)) (depth (hs ! j)) (heading_key (hs ! j)) =
      Some (hs ! i)"
    using assms(3) by (intro open_heading_found) auto
  then show "heading_diagnostics file hs j =
          (if generated (hs ! j) then [] else [duplicate_message (hs ! i) (hs ! j)])"
    by (simp add: heading_diagnostics_open [OF assms(2,3)])
next
  assume a: "\<forall>i<j. depth (hs ! i) = depth (hs ! j) \<and>
         heading_key (hs ! i) = heading_key (hs ! j) \<longrightarrow>
         (\<exists>k. i < k \<and> k < j \<and> depth (hs ! k) < depth (hs ! j))"
  have "open_heading (rev (take j hs)) (depth (hs ! j)) (heading_key (hs ! j)) = None"
  proof (rule ccontr)
    assume "open_heading (rev (take j hs)) (depth (hs ! j)) (heading_key (hs ! j)) \<noteq> None"
    then obtain h where
      "open_heading (rev (take j hs)) (depth (hs ! j)) (heading_key (hs ! j)) = Some h"
      by auto
    from open_heading_index [OF _ this] assms(3)
    obtain i where i: "i < j" "depth (hs ! i) = depth (hs ! j)"
      "heading_key (hs ! i) = heading_key (hs ! j)"
      "\<forall>k. i < k \<and> k < j \<longrightarrow> depth (hs ! j) \<le> depth (hs ! k)"
      by auto
    with a obtain k where "i < k" "k < j" "depth (hs ! k) < depth (hs ! j)" by blast
    with i(4) show False by force
  qed
  then show "heading_diagnostics file hs j = []"
    by (simp add: heading_diagnostics_open [OF assms(2,3)])
qed

text \<open>The theorem at the rule's own examples: the second \<open>Golf\<close> is reported with the first
  one's place, the second \<open>Bravo\<close>, behind the shallower \<open>Charlie\<close>, is not.\<close>

theorem duplicate_heading_in_section_witness:
  "heading_diagnostics empty_file foxtrot 2 = [duplicate_message (foxtrot ! 1) (foxtrot ! 2)] \<and>
   reason (duplicate_message (foxtrot ! 1) (foxtrot ! 2)) =
     ''Do not use headings with similar content per section (3:1)'' \<and>
   remarkLintNoDuplicateHeadingsInSection (root_node foxtrot) empty_file =
     Inr (empty_file\<lparr>messages := [duplicate_message (foxtrot ! 1) (foxtrot ! 2)]\<rparr>) \<and>
   heading_diagnostics empty_file alpha 3 = []"
proof -
  have f1: "foxtrot = headings (root_node foxtrot)" by code_simp
  have f2: "\<forall>h\<in>set foxtrot. 1 \<le> depth h" by code_simp
  have f3: "2 < length foxtrot" by code_simp
  have f4: "depth (foxtrot ! 1) = depth (foxtrot ! 2) \<and>
            heading_key (foxtrot ! 1) = heading_key (foxtrot ! 2)" by code_simp
  have f5: "\<not> generated (foxtrot ! 2)" by code_simp
  have f6: "\<forall>k. (1::nat) < k \<and> k < 2 \<longrightarrow>
       depth (foxtrot ! 2) \<le> depth (foxtrot ! k) \<and>
       \<not> (depth (foxtrot ! k) = depth (foxtrot ! 2) \<and>
          heading_key (foxtrot ! k) = heading_key (foxtrot ! 2))"
  proof (intro allI impI)
    fix k :: nat
    assume "1 < k \<and> k < 2"
    then have False by arith
    then show "depth (foxtrot ! 2) \<le> depth (foxtrot ! k) \<and>
       \<not> (depth (foxtrot ! k) = depth (foxtrot ! 2) \<and>
          heading_key (foxtrot ! k) = heading_key (foxtrot ! 2))" by simp
  qed
  have f7: "concat (map (heading_diagnostics empty_file foxtrot) [0..<length foxtrot]) =
            [duplicate_message (foxtrot ! 1) (foxtrot ! 2)]" by code_simp
  have f8: "reason (duplicate_message (foxtrot ! 1) (foxtrot ! 2)) =
     ''Do not use headings with similar content per section (3:1)''" by code_simp
  have a1: "alpha = headings (root_node alpha)" by code_simp
  have a2: "\<forall>h\<in>set alpha. 1 \<le> depth h" by code_simp
  have a3: "3 < length alpha" by code_simp
  have a4: "\<forall>i<3. depth (alpha ! i) = depth (alpha ! 3) \<and>
              heading_key (alpha ! i) = heading_key (alpha ! 3) \<longrightarrow>
              (\<exists>k. i < k \<and> k < 3 \<and> depth (alpha ! k) < depth (alpha ! 3))"
  proof (intro allI impI)
    fix i :: nat
    assume i: "i < 3" and s: "depth (alpha ! i) = depth (alpha ! 3) \<and>
      heading_key (alpha ! i) = heading_key (alpha ! 3)"
    have d: "depth (alpha ! 0) \<noteq> depth (alpha ! 3)" "depth (alpha ! 2) \<noteq> depth (alpha ! 3)"
      "depth (alpha ! 2) < depth (alpha ! 3)" by code_simp+
    from i have "i = 0 \<or> i = 1 \<or> i = 2" by arith
    with s d have "i = 1" by auto
    with d(3) show "\<exists>k. i < k \<and> k < 3 \<and> depth (alpha ! k) < depth (alpha ! 3)"
      by (intro exI [of _ 2]) simp
  qed
  from duplicate_heading_in_section [OF f1 f2 f3, of empty_file] f4 f5 f6 f7
  have "heading_diagnostics empty_file foxtrot 2 =
          [duplicate_message (foxtrot ! 1) (foxtrot ! 2)] \<and>
        remarkLintNoDuplicateHeadingsInSection (root_node foxtrot) empty_file =
          Inr (empty_file\<lparr>messages := [duplicate_message (foxtrot ! 1) (foxtrot ! 2)]\<rparr>)"
    by (simp add: empty_file_def)
  moreover from duplicate_heading_in_section [OF a1 a2 a3, of empty_file] a4
  have "heading_diagnostics empty_file alpha 3 = []" by blast
  ultimately show ?thesis using f8 by simp
qed

text \<open>Against claim C1 as stated: in \<open>## Alpha\<close>, \<open>## Bravo\<close>, \<open>## Alpha\<close> a heading of equal
  depth lies between the two equal headings, and the second is reported all the same.\<close>

theorem equal_depth_heading_counterexample:
  "depth (equal_depth ! 1) = depth (equal_depth ! 2) \<and>
   depth (equal_depth ! 0) = depth (equal_depth ! 2) \<and>
   heading_key (equal_depth ! 0) = heading_key (equal_depth ! 2) \<and>
   remarkLintNoDuplicateHeadingsInSection (root_node equal_depth) empty_file =
     Inr (empty_file\<lparr>messages :=
       [\<lparr>reason = ''Do not use headings with similar content per section (1:1)'',
         place = Place_node (equal_depth ! 2), fatal = False\<rparr>]\<rparr>)"
  by code_simp

text \<open>
  Claim C2, as the code has it. A generated heading adds no message at its own visit, but
  its visit is not skipped: the guard \<open>!generated(node)\<close> is on the message only. The heading
  is recorded under its normalized text in the scope of its depth and the deeper scopes are
  dropped, so that an authored heading of the same depth and normalized text that follows
  it is reported, with the generated heading as the duplicate it cites.
\<close>

theorem generated_heading_is_recorded:
  assumes "\<forall>h\<in>set hs. 1 \<le> depth h" and "Suc i < length hs" and "generated (hs ! i)"
  shows
    "heading_diagnostics file hs i = [] \<and>
     scope_lookup (scan (take (Suc i) hs) \<lparr>stack = [], dup_file = file\<rparr>)
       (depth (hs ! i)) (heading_key (hs ! i)) = Some (hs ! i) \<and>
     length (stack (scan (take (Suc i) hs) \<lparr>stack = [], dup_file = file\<rparr>)) \<le> depth (hs ! i) \<and>
     (\<not> generated (hs ! Suc i) \<and> depth (hs ! Suc i) = depth (hs ! i) \<and>
      heading_key (hs ! Suc i) = heading_key (hs ! i) \<longrightarrow>
        heading_diagnostics file hs (Suc i) = [duplicate_message (hs ! i) (hs ! Suc i)])"
proof (intro conjI impI)
  have i: "i < length hs" using assms(2) by simp
  have d: "1 \<le> depth (hs ! i)" using assms(1) i by simp
  have t: "\<forall>h\<in>set (take i hs). 1 \<le> depth h" using assms(1) by (meson in_set_takeD)
  show "heading_diagnostics file hs i = []"
    using assms(3) by (simp add: heading_diagnostics_open [OF assms(1) i] split: option.splits)
  show "scope_lookup (scan (take (Suc i) hs) \<lparr>stack = [], dup_file = file\<rparr>)
       (depth (hs ! i)) (heading_key (hs ! i)) = Some (hs ! i)"
    using d by (simp add: take_Suc_conv_app_nth [OF i] scan_snoc visitor_lookup)
  show "length (stack (scan (take (Suc i) hs) \<lparr>stack = [], dup_file = file\<rparr>)) \<le> depth (hs ! i)"
    using d
    by (simp add: take_Suc_conv_app_nth [OF i] scan_snoc no_duplicate_headings_visitor_def Let_def)
next
  assume a: "\<not> generated (hs ! Suc i) \<and> depth (hs ! Suc i) = depth (hs ! i) \<and>
      heading_key (hs ! Suc i) = heading_key (hs ! i)"
  have "open_heading (rev (take (Suc i) hs)) (depth (hs ! Suc i)) (heading_key (hs ! Suc i)) =
      Some (hs ! i)"
    using assms(2) a by (intro open_heading_found) auto
  with a show "heading_diagnostics file hs (Suc i) = [duplicate_message (hs ! i) (hs ! Suc i)]"
    by (simp add: heading_diagnostics_open [OF assms(1,2)])
qed

text \<open>The theorem at a generated heading \<open>Alpha\<close> followed by an authored \<open>Alpha\<close>.\<close>

theorem generated_heading_is_recorded_witness:
  "generated (generated_first ! 0) \<and> \<not> generated (generated_first ! 1) \<and>
   heading_diagnostics empty_file generated_first 0 = [] \<and>
   heading_diagnostics empty_file generated_first 1 =
     [duplicate_message (generated_first ! 0) (generated_first ! 1)]"
proof -
  have g1: "\<forall>h\<in>set generated_first. 1 \<le> depth h" by code_simp
  have g2: "Suc 0 < length generated_first" by code_simp
  have g3: "generated (generated_first ! 0)" by code_simp
  have g4: "\<not> generated (generated_first ! Suc 0) \<and>
            depth (generated_first ! Suc 0) = depth (generated_first ! 0) \<and>
            heading_key (generated_first ! Suc 0) = heading_key (generated_first ! 0)"
    by code_simp
  from generated_heading_is_recorded [OF g1 g2 g3, of empty_file] g3 g4
  show ?thesis by simp
qed

text \<open>Against claim C2 as stated: the generated heading is recorded, and the authored heading
  after it is reported as its duplicate; the place cited is that of a node without
  position.\<close>

theorem generated_heading_counterexample:
  "generated (generated_first ! 0) \<and>
   remarkLintNoDuplicateHeadingsInSection (root_node generated_first) empty_file =
     Inr (empty_file\<lparr>messages :=
       [\<lparr>reason = ''Do not use headings with similar content per section (1:1)'',
         place = Place_node (generated_first ! 1), fatal = False\<rparr>]\<rparr>)"
  by code_simp

section \<open>First heading level\<close>

lemma first_heading_run:
  "run (\<lambda>n ps. first_heading_level_visitor pref n) xs file =
     (case find (\<lambda>n. \<not> generated n \<and> rank_of n \<noteq> None) (map fst xs) of
        None \<Rightarrow> CONTINUE file
      | Some n \<Rightarrow> EXIT (first_heading_check pref n file))"
  by (induction xs)
     (auto simp: first_heading_level_visitor_def rank_of_def first_heading_check_def Let_def
           split: option.splits)

text \<open>
  Claim C3, as the code has it. The visitor returns \<open>EXIT\<close> at a node that is not
  generated and bears a rank, and at no other: a generated node never stops the traversal,
  whatever its type. So the traversal stops at the first node in pre-order that is not
  generated and bears a rank; the rule adds one message, at that node, when its rank differs
  from the preferred rank, and none otherwise; no node after it is considered, and a tree
  without such a node gets no message.
\<close>

theorem first_heading_level_first_authored:
  "first_heading_level_visitor pref node file =
     (if \<not> generated node \<and> rank_of node \<noteq> None
      then EXIT (first_heading_check pref node file) else CONTINUE file) \<and>
   remarkLintFirstHeadingLevel tree file option =
     Inr (case find (\<lambda>n. \<not> generated n \<and> rank_of n \<noteq> None) (map fst (preorder [] tree)) of
            None \<Rightarrow> file
          | Some n \<Rightarrow> first_heading_check (preferred_rank option) n file)"
proof
  show "first_heading_level_visitor pref node file =
     (if \<not> generated node \<and> rank_of node \<noteq> None
      then EXIT (first_heading_check pref node file) else CONTINUE file)"
    by (auto simp: first_heading_level_visitor_def rank_of_def first_heading_check_def Let_def
        split: option.splits)
  show "remarkLintFirstHeadingLevel tree file option =
     Inr (case find (\<lambda>n. \<not> generated n \<and> rank_of n \<noteq> None) (map fst (preorder [] tree)) of
            None \<Rightarrow> file
          | Some n \<Rightarrow> first_heading_check (preferred_rank option) n file)"
    by (simp add: remarkLintFirstHeadingLevel_def visit_def visitParents_def
        visitParents_node_run type_test_def first_heading_run finish_def preferred_rank_def
        Let_def split: option.splits)
qed

text \<open>The theorem at a generated heading of rank 2 followed by an authored one of rank 3.\<close>

theorem first_heading_level_first_authored_witness:
  "first_heading_level_visitor (JNumber 1) (generated_rank ! 0) empty_file =
     CONTINUE empty_file \<and>
   find (\<lambda>n. \<not> generated n \<and> rank_of n \<noteq> None)
     (map fst (preorder [] (root_node generated_rank))) = Some (generated_rank ! 1) \<and>
   remarkLintFirstHeadingLevel (root_node generated_rank) empty_file JUndefined =
     Inr (first_heading_check (JNumber 1) (generated_rank ! 1) empty_file) \<and>
   remarkLintFirstHeadingLevel (root_node generated_rank) empty_file (JNumber 3) =
     Inr empty_file"
proof -
  have f: "find (\<lambda>n. \<not> generated n \<and> rank_of n \<noteq> None)
     (map fst (preorder [] (root_node generated_rank))) = Some (generated_rank ! 1)"
    by code_simp
  have p: "preferred_rank JUndefined = JNumber 1" "preferred_rank (JNumber 3) = JNumber 3"
    by code_simp+
  have c: "first_heading_check (JNumber 3) (generated_rank ! 1) empty_file = empty_file"
    by code_simp
  have g: "generated (generated_rank ! 0)" by code_simp
  note t1 = first_heading_level_first_authored [of "JNumber 1" "generated_rank ! 0" empty_file
      "root_node generated_rank" JUndefined]
  note t3 = first_heading_level_first_authored [of "JNumber 1" "generated_rank ! 0" empty_file
      "root_node generated_rank" "JNumber 3"]
  from t1 g have v: "first_heading_level_visitor (JNumber 1) (generated_rank ! 0) empty_file =
     CONTINUE empty_file" by simp
  have r1: "remarkLintFirstHeadingLevel (root_node generated_rank) empty_file JUndefined =
     Inr (first_heading_check (JNumber 1) (generated_rank ! 1) empty_file)"
    using t1 [THEN conjunct2] unfolding f p option.case .
  have r3: "remarkLintFirstHeadingLevel (root_node generated_rank) empty_file (JNumber 3) =
     Inr empty_file"
    using t3 [THEN conjunct2] unfolding f p option.case c .
  from v f r1 r3 show ?thesis by blast
qed

text \<open>Against claim C3 as stated: the first node that bears a rank is the generated heading,
  and the traversal goes on to the authored heading after it, which is reported.\<close>

theorem generated_rank_counterexample:
  "find (\<lambda>n. rank_of n \<noteq> None) (map fst (preorder [] (root_node generated_rank))) =
     Some (generated_rank ! 0) \<and>
   generated (generated_rank ! 0) \<and>
   remarkLintFirstHeadingLevel (root_node generated_rank) empty_file JUndefined =
     Inr (empty_file\<lparr>messages :=
       [\<lparr>reason = ''First heading level should be `1`'',
         place = Place_node (generated_rank ! 1), fatal = False\<rparr>]\<rparr>)"
  by code_simp

lemma tag_at_0: "tag_at (c # cs) 0 r = (c = CHR ''<'' \<and> heading_digit cs = Some r)"
  by (simp add: tag_at_def)

lemma tag_at_Suc: "tag_at (c # cs) (Suc i) r = tag_at cs i r"
  by (simp add: tag_at_def)

lemma tag_at_Nil: "tag_at [] i r = False"
  by (simp add: tag_at_def)

lemma match_re_leftmost:
  "(match_re s = Some r) = (\<exists>i. tag_at s i r \<and> (\<forall>j<i. \<forall>r'. \<not> tag_at s j r'))"
proof (induction s)
  case Nil
  then show ?case by (simp add: tag_at_Nil)
next
  case (Cons c cs)
  show ?case
  proof (cases "c = CHR ''<'' \<and> heading_digit cs \<noteq> None")
    case True
    then obtain r0 where r0: "heading_digit cs = Some r0" by auto
    have "(\<exists>i. tag_at (c # cs) i r \<and> (\<forall>j<i. \<forall>r'. \<not> tag_at (c # cs) j r')) = (r0 = r)"
    proof
      assume "\<exists>i. tag_at (c # cs) i r \<and> (\<forall>j<i. \<forall>r'. \<not> tag_at (c # cs) j r')"
      then obtain i where i: "tag_at (c # cs) i r" "\<forall>j<i. \<forall>r'. \<not> tag_at (c # cs) j r'"
        by blast
      have "tag_at (c # cs) 0 r0" using True r0 by (simp add: tag_at_0)
      with i(2) have "i = 0" by (cases i) auto
      with i(1) r0 show "r0 = r" by (simp add: tag_at_0)
    next
      assume "r0 = r"
      with True r0 have "tag_at (c # cs) 0 r" by (simp add: tag_at_0)
      then show "\<exists>i. tag_at (c # cs) i r \<and> (\<forall>j<i. \<forall>r'. \<not> tag_at (c # cs) j r')"
        by (intro exI [of _ 0]) simp
    qed
    with True r0 show ?thesis by simp
  next
    case False
    then have no0: "\<And>r'. \<not> tag_at (c # cs) 0 r'" by (auto simp: tag_at_0)
    have "(\<exists>i. tag_at (c # cs) i r \<and> (\<forall>j<i. \<forall>r'. \<not> tag_at (c # cs) j r')) =
          (\<exists>i. tag_at cs i r \<and> (\<forall>j<i. \<forall>r'. \<not> tag_at cs j r'))"
    proof
      assume "\<exists>i. tag_at (c # cs) i r \<and> (\<forall>j<i. \<forall>r'. \<not> tag_at (c # cs) j r')"
      then obtain i where i: "tag_at (c # cs) i r" "\<forall>j<i. \<forall>r'. \<not> tag_at (c # cs) j r'"
        by blast
      from i(1) no0 obtain i' where i': "i = Suc i'" by (cases i) auto
      have "\<forall>j<i'. \<forall>r'. \<not> tag_at cs j r'"
      proof (intro allI impI)
        fix j r' assume "j < i'"
        then have "Suc j < i" using i' by simp
        with i(2) have "\<not> tag_at (c # cs) (Suc j) r'" by blast
        then show "\<not> tag_at cs j r'" by (simp add: tag_at_Suc)
      qed
      with i(1) i' show "\<exists>i. tag_at cs i r \<and> (\<forall>j<i. \<forall>r'. \<not> tag_at cs j r')"
        by (auto simp: tag_at_Suc)
    next
      assume "\<exists>i. tag_at cs i r \<and> (\<forall>j<i. \<forall>r'. \<not> tag_at cs j r')"
      then obtain i where i: "tag_at cs i r" "\<forall>j<i. \<forall>r'. \<not> tag_at cs j r'" by blast
      have "\<forall>j<Suc i. \<forall>r'. \<not> tag_at (c # cs) j r'"
      proof (intro allI impI)
        fix j r' assume j: "j < Suc i"
        show "\<not> tag_at (c # cs) j r'"
        proof (cases j)
          case 0
          then show ?thesis using no0 by simp
        next
          case (Suc j')
          with j i(2) show ?thesis by (simp add: tag_at_Suc)
        qed
      qed
      with i(1) show "\<exists>i. tag_at (c # cs) i r \<and> (\<forall>j<i. \<forall>r'. \<not> tag_at (c # cs) j r')"
        by (intro exI [of _ "Suc i"]) (simp add: tag_at_Suc)
    qed
    with False Cons.IH show ?thesis by auto
  qed
qed

lemma heading_digit_iff:
  "(heading_digit cs = Some r) =
     (2 \<le> length cs \<and> cs ! 0 = CHR ''h'' \<and> cs ! 1 \<in> set ''123456'' \<and>
      r = of_char (cs ! 1) - 48)"
  by (cases cs; cases "tl cs") (auto simp: heading_digit_def)

lemma tag_at_iff:
  "tag_at s i r =
     (i + 2 < length s \<and> s ! i = CHR ''<'' \<and> s ! (i + 1) = CHR ''h'' \<and>
      s ! (i + 2) \<in> set ''123456'' \<and> r = of_char (s ! (i + 2)) - 48)"
proof (cases "i < length s")
  case True
  then have d: "drop i s = s ! i # drop (Suc i) s" by (simp add: Cons_nth_drop_Suc)
  have l: "(2 \<le> length (drop (Suc i) s)) = (i + 2 < length s)" by auto
  show ?thesis
    unfolding tag_at_def d list.case heading_digit_iff l
    by (auto simp: add.commute)
next
  case False
  then show ?thesis by (simp add: tag_at_def)
qed

text \<open>
  Claim C4, as the code has it. The pattern \<open>/<h([1-6])/\<close> is not anchored: an html node
  determines the first heading rank when its value holds \<open><h\<close> and a digit from 1 to 6 at any
  index, leading or not, and the rank is the digit of the leftmost such place. A tag at
  index \<open>i\<close> is the three code units \<open><\<close>, \<open>h\<close> and the digit there.
\<close>

theorem infer_matches_anywhere:
  "(ntype node = ''html'' \<longrightarrow> rank_of node = infer node) \<and>
   (infer node = Some r) =
     (\<exists>i. tag_at (nvalue node) i r \<and> (\<forall>j<i. \<forall>r'. \<not> tag_at (nvalue node) j r')) \<and>
   tag_at (nvalue node) i r =
     (i + 2 < length (nvalue node) \<and> nvalue node ! i = CHR ''<'' \<and>
      nvalue node ! (i + 1) = CHR ''h'' \<and> nvalue node ! (i + 2) \<in> set ''123456'' \<and>
      r = of_char (nvalue node ! (i + 2)) - 48)"
proof (intro conjI)
  show "ntype node = ''html'' \<longrightarrow> rank_of node = infer node"
    by (simp add: rank_of_def)
  show "(infer node = Some r) =
     (\<exists>i. tag_at (nvalue node) i r \<and> (\<forall>j<i. \<forall>r'. \<not> tag_at (nvalue node) j r'))"
    unfolding infer_def by (rule match_re_leftmost)
  show "tag_at (nvalue node) i r =
     (i + 2 < length (nvalue node) \<and> nvalue node ! i = CHR ''<'' \<and>
      nvalue node ! (i + 1) = CHR ''h'' \<and> nvalue node ! (i + 2) \<in> set ''123456'' \<and>
      r = of_char (nvalue node ! (i + 2)) - 48)"
    by (rule tag_at_iff)
qed

text \<open>The theorem at \<open><div><h2>Bravo</h2></div>\<close>: the leftmost tag is at index 5, and
  the rank is 2.\<close>

theorem infer_matches_anywhere_witness:
  "tag_at (nvalue nested_html) 5 2 \<and> infer nested_html = Some 2 \<and>
   rank_of nested_html = Some 2"
proof -
  have t: "tag_at (nvalue nested_html) 5 2" by code_simp
  have n: "\<forall>j<5. \<forall>r'. \<not> tag_at (nvalue nested_html) j r'"
  proof (intro allI impI)
    fix j :: nat and r' assume "j < 5"
    then have "j = 0 \<or> j = 1 \<or> j = 2 \<or> j = 3 \<or> j = 4" by arith
    moreover have "nvalue nested_html = ''<div><h2>Bravo</h2></div>''" by code_simp
    ultimately show "\<not> tag_at (nvalue nested_html) j r'"
      by (auto simp: tag_at_def heading_digit_def)
  qed
  have h: "ntype nested_html = ''html''" by code_simp
  from t n have e: "\<exists>i. tag_at (nvalue nested_html) i 2 \<and>
      (\<forall>j<i. \<forall>r'. \<not> tag_at (nvalue nested_html) j r')" by blast
  from infer_matches_anywhere [of nested_html 2 5] e h
  have "infer nested_html = Some 2 \<and> rank_of nested_html = Some 2" by simp
  with t show ?thesis by simp
qed

text \<open>Against claim C4 as stated: the value \<open><div><h2>Bravo</h2></div>\<close> leads with
  \<open><div>\<close>, and the tag inside it determines the first heading rank all the same.\<close>

theorem nested_html_counterexample:
  "take 5 (nvalue nested_html) = ''<div>'' \<and> infer nested_html = Some 2 \<and>
   remarkLintFirstHeadingLevel (root_node [nested_html]) empty_file (JNumber 2) =
     Inr empty_file \<and>
   remarkLintFirstHeadingLevel (root_node [nested_html]) empty_file JUndefined =
     Inr (empty_file\<lparr>messages :=
       [\<lparr>reason = ''First heading level should be `1`'',
         place = Place_node nested_html, fatal = False\<rparr>]\<rparr>)"
  by code_simp

section \<open>Unordered list marker style\<close>

lemma styles_true:
  "(styles k = Some True) = (k \<in> {''-'', ''*'', ''+'', ''undefined''})"
  by (auto simp: styles_def)

lemma marker_style_invalid:
  assumes "s \<notin> {''consistent'', ''-'', ''*'', ''+'', ''undefined''}"
  shows "remarkLintUnorderedListMarkerStyle tree file (JString s) =
           Inl (fail (marker_style_fail_reason s) file)"
  using assms
  by (simp add: remarkLintUnorderedListMarkerStyle_def styles_true property_key_def Let_def)

lemma marker_style_non_string:
  assumes "\<forall>s. option \<noteq> JString s"
  shows "remarkLintUnorderedListMarkerStyle tree file option =
           remarkLintUnorderedListMarkerStyle tree file JUndefined"
  using assms
  by (cases option) (simp_all add: remarkLintUnorderedListMarkerStyle_def)

lemma marker_style_absent_returns:
  "\<exists>f. remarkLintUnorderedListMarkerStyle tree file JUndefined = Inr f"
  by (simp add: remarkLintUnorderedListMarkerStyle_def styles_true property_key_def Let_def
      visit_def visitParents_def visitParents_node_run run_continue finish_continue)

text \<open>
  Claim C5, as the code has it. The option is read as a style only when it is a string:
  for every string other than \<open>consistent\<close>, \<open>-\<close>, \<open>*\<close>, \<open>+\<close> (and \<open>undefined\<close>, about which
  nothing is said here) the rule fails before it visits a node, whatever the tree: it adds
  the one fatal message and throws it, and adds no other message. An option that is not a
  string is treated as an absent one: the rule does not fail and checks the lists for
  consistency.
\<close>

theorem marker_style_fails_fast:
  "(s \<notin> {''consistent'', ''-'', ''*'', ''+'', ''undefined''} \<longrightarrow>
      remarkLintUnorderedListMarkerStyle tree file (JString s) =
        Inl (Fail \<lparr>reason = marker_style_fail_reason s, place = Place_none, fatal = True\<rparr>,
             file\<lparr>messages := messages file @
               [\<lparr>reason = marker_style_fail_reason s, place = Place_none, fatal = True\<rparr>]\<rparr>)) \<and>
   ((\<forall>s. option \<noteq> JString s) \<longrightarrow>
      remarkLintUnorderedListMarkerStyle tree file option =
        remarkLintUnorderedListMarkerStyle tree file JUndefined \<and>
      (\<exists>f. remarkLintUnorderedListMarkerStyle tree file option = Inr f))"
  using marker_style_invalid [of s tree "file"] marker_style_non_string [of option tree "file"]
    marker_style_absent_returns [of tree "file"]
  by (auto simp: fail_def Let_def)

text \<open>The theorem at the option \<open>x\<close> and at the option \<open>5\<close>, on the list \<open>* Foo\<close>, \<open>- Bar\<close>,
  \<open>+ Baz\<close>.\<close>

theorem marker_style_fails_fast_witness:
  "thrown (remarkLintUnorderedListMarkerStyle markers_tree markers_file (JString ''x'')) =
     Some (Fail \<lparr>reason = marker_style_fail_reason ''x'', place = Place_none, fatal = True\<rparr>) \<and>
   new_messages markers_file
       (remarkLintUnorderedListMarkerStyle markers_tree markers_file (JString ''x'')) =
     [\<lparr>reason = marker_style_fail_reason ''x'', place = Place_none, fatal = True\<rparr>] \<and>
   remarkLintUnorderedListMarkerStyle markers_tree markers_file (JNumber 5) =
     remarkLintUnorderedListMarkerStyle markers_tree markers_file JUndefined"
proof -
  have x: "''x'' \<notin> {''consistent'', ''-'', ''*'', ''+'', ''undefined''}" by simp
  have n: "\<forall>s. JNumber 5 \<noteq> JString s" by simp
  from marker_style_fails_fast [of "''x''" markers_tree markers_file "JNumber 5"] x n
  show ?thesis by (simp add: thrown_def new_messages_def file_of_def)
qed

text \<open>Against claim C5 as stated: with the option \<open>5\<close>, which is neither absent nor one of
  the four strings, the rule does not fail; it visits the list and reports two items.\<close>

theorem non_string_option_counterexample:
  "remarkLintUnorderedListMarkerStyle markers_tree markers_file (JNumber 5) =
     Inr (markers_file\<lparr>messages :=
       [\<lparr>reason = ''Marker style should be `*`'', place = Place_node (markers_items ! 1),
         fatal = False\<rparr>,
        \<lparr>reason = ''Marker style should be `*`'', place = Place_node (markers_items ! 2),
         fatal = False\<rparr>]\<rparr>)"
  by code_simp

text \<open>
  Claim C6, as the code has it. When the rule fails on the string \<open>s\<close>, the text of the fatal
  message is \<open>Incorrect unordered list item marker style\<close>, the string between grave
  accents, and \<open>: use either `'-'`, `'*'`, or `'+'`\<close>: each of the three quoted markers stands
  between grave accents, as in the example output the rule documents.
\<close>

theorem marker_style_fail_text:
  assumes "s \<notin> {''consistent'', ''-'', ''*'', ''+'', ''undefined''}"
  shows "\<exists>m f. remarkLintUnorderedListMarkerStyle tree file (JString s) = Inl (Fail m, f) \<and>
           fatal m \<and>
           reason m = ''Incorrect unordered list item marker style `'' @ s @
                      ''`: use either `'-'`, `'*'`, or `'+'`''"
  using marker_style_invalid [OF assms, of tree "file"]
  by (simp add: fail_def Let_def marker_style_fail_reason_def)

text \<open>The theorem at the option \<open>x\<close>.\<close>

theorem marker_style_fail_text_witness:
  "''x'' \<notin> {''consistent'', ''-'', ''*'', ''+'', ''undefined''} \<and>
   (\<exists>m f. remarkLintUnorderedListMarkerStyle markers_tree markers_file (JString ''x'') =
            Inl (Fail m, f) \<and>
          fatal m \<and>
          reason m = ''Incorrect unordered list item marker style `x`: use either `'-'`, `'*'`, or `'+'`'')"
proof -
  have x: "''x'' \<notin> {''consistent'', ''-'', ''*'', ''+'', ''undefined''}" by simp
  from marker_style_fail_text [OF x, of markers_tree markers_file] x
  show ?thesis by simp
qed

text \<open>Against claim C6 as stated: at the option \<open>x\<close> the text of the fatal message is not the
  text with the bare quoted markers \<open>'-', '*', or '+'\<close>.\<close>

theorem marker_style_fail_text_counterexample:
  "thrown (remarkLintUnorderedListMarkerStyle markers_tree markers_file (JString ''x'')) =
     Some (Fail \<lparr>reason = ''Incorrect unordered list item marker style `x`: use either `'-'`, `'*'`, or `'+'`'',
                 place = Place_none, fatal = True\<rparr>) \<and>
   ''Incorrect unordered list item marker style `x`: use either `'-'`, `'*'`, or `'+'`'' \<noteq>
   ''Incorrect unordered list item marker style `x`: use either '-', '*', or '+'' @ [CHR 0x27]"
  by code_simp

section \<open>Heading indent\<close>

lemma no_heading_indent_rule:
  "remarkLintNoHeadingIndent tree file =
     Inr (foldl (\<lambda>f x. no_heading_indent_visitor (fst x) (snd x) f) file
            (visited (Some ''heading'') tree))"
  by (simp add: remarkLintNoHeadingIndent_def visitParents_def visitParents_node_run
      run_continue finish_continue visited_def)

text \<open>The last ancestor of a visited node is the node it is a child of.\<close>

lemma preorder_parent:
  "x \<in> set (preorder parents n) \<Longrightarrow>
     (fst x = n \<and> snd x = parents) \<or> (snd x \<noteq> [] \<and> fst x \<in> set (children (last (snd x))))"
proof (induction parents n arbitrary: x rule: preorder.induct)
  case (1 parents t d ord v a p cs)
  let ?n = "Node t d ord v a p cs"
  show ?case
  proof (cases "x = (?n, parents)")
    case True
    then show ?thesis by simp
  next
    case False
    with "1.prems" obtain c where c: "c \<in> set cs" "x \<in> set (preorder (parents @ [?n]) c)"
      by auto
    from "1.IH" [OF c] show ?thesis
    proof
      assume "fst x = c \<and> snd x = parents @ [?n]"
      with c(1) show ?thesis by simp
    next
      assume "snd x \<noteq> [] \<and> fst x \<in> set (children (last (snd x)))"
      then show ?thesis by simp
    qed
  qed
qed

lemma heading_indent_reason_plural:
  "n \<noteq> 1 \<Longrightarrow> heading_indent_reason n =
     ''Unexpected `'' @ string_of_nat n @
     ''` spaces before heading, expected `0` spaces, remove `'' @ string_of_nat n @ ''` spaces''"
  by (simp add: heading_indent_reason_def pluralize_def)

lemma heading_indent_reason_singular:
  "heading_indent_reason 1 =
     ''Unexpected `1` space before heading, expected `0` spaces, remove `1` space''"
  by code_simp

text \<open>
  Claim C7. The rule is its visitor run over the headings of the tree in pre-order, each
  with its ancestors; the last ancestor is the node the heading is a child of, and the tree
  itself has none. For a heading with a start point whose parent is the root, the visitor
  adds one message exactly when the start column less one is not zero, reporting that count
  with \<open>space\<close> for one and \<open>spaces\<close> otherwise; for a heading whose parent is not the root,
  or that has no parent, it adds nothing, whatever the column.
\<close>

theorem no_heading_indent_root_only:
  "remarkLintNoHeadingIndent tree file =
     Inr (foldl (\<lambda>f x. no_heading_indent_visitor (fst x) (snd x) f) file
            (visited (Some ''heading'') tree)) \<and>
   (\<forall>x\<in>set (visited (Some ''heading'') tree).
      ntype (fst x) = ''heading'' \<and>
      ((fst x = tree \<and> snd x = []) \<or>
       (snd x \<noteq> [] \<and> fst x \<in> set (children (last (snd x)))))) \<and>
   (pointStart_v5 node = Some st \<and> parents \<noteq> [] \<and> ntype (last parents) = ''root'' \<longrightarrow>
      no_heading_indent_visitor node parents file =
        (if column st - 1 \<noteq> 0
         then file\<lparr>messages := messages file @
                [\<lparr>reason = heading_indent_reason (column st - 1),
                  place = Place_point st (parents @ [node]), fatal = False\<rparr>]\<rparr>
         else file) \<and>
      1 \<le> column st) \<and>
   (parents = [] \<or> ntype (last parents) \<noteq> ''root'' \<longrightarrow>
      no_heading_indent_visitor node parents file = file) \<and>
   heading_indent_reason 1 =
     ''Unexpected `1` space before heading, expected `0` spaces, remove `1` space'' \<and>
   (n \<noteq> 1 \<longrightarrow> heading_indent_reason n =
     ''Unexpected `'' @ string_of_nat n @
     ''` spaces before heading, expected `0` spaces, remove `'' @ string_of_nat n @ ''` spaces'')"
proof (intro conjI ballI impI)
  show "remarkLintNoHeadingIndent tree file =
     Inr (foldl (\<lambda>f x. no_heading_indent_visitor (fst x) (snd x) f) file
            (visited (Some ''heading'') tree))"
    by (rule no_heading_indent_rule)
next
  fix x assume "x \<in> set (visited (Some ''heading'') tree)"
  then show "ntype (fst x) = ''heading''" by (simp add: visited_def type_test_def)
next
  fix x assume "x \<in> set (visited (Some ''heading'') tree)"
  then have "x \<in> set (preorder [] tree)" by (simp add: visited_def)
  from preorder_parent [OF this]
  show "(fst x = tree \<and> snd x = []) \<or> (snd x \<noteq> [] \<and> fst x \<in> set (children (last (snd x))))" .
next
  assume "pointStart_v5 node = Some st \<and> parents \<noteq> [] \<and> ntype (last parents) = ''root''"
  then show "no_heading_indent_visitor node parents file =
        (if column st - 1 \<noteq> 0
         then file\<lparr>messages := messages file @
                [\<lparr>reason = heading_indent_reason (column st - 1),
                  place = Place_point st (parents @ [node]), fatal = False\<rparr>]\<rparr>
         else file)"
    by (simp add: no_heading_indent_visitor_def message_def Let_def)
next
  assume "pointStart_v5 node = Some st \<and> parents \<noteq> [] \<and> ntype (last parents) = ''root''"
  then show "1 \<le> column st"
    by (auto simp: pointStart_v5_def split: option.splits if_splits)
next
  assume "parents = [] \<or> ntype (last parents) \<noteq> ''root''"
  then show "no_heading_indent_visitor node parents file = file"
    by (auto simp: no_heading_indent_visitor_def split: option.splits)
next
  show "heading_indent_reason 1 =
     ''Unexpected `1` space before heading, expected `0` spaces, remove `1` space''"
    by (rule heading_indent_reason_singular)
next
  assume "n \<noteq> 1"
  then show "heading_indent_reason n =
     ''Unexpected `'' @ string_of_nat n @
     ''` spaces before heading, expected `0` spaces, remove `'' @ string_of_nat n @ ''` spaces''"
    by (rule heading_indent_reason_plural)
qed

text \<open>The theorem at a heading indented by three spaces in the root and at a heading
  indented in a block quote.\<close>

theorem no_heading_indent_root_only_witness:
  "no_heading_indent_visitor indented [indented_tree] empty_file = indented_report \<and>
   no_heading_indent_visitor quoted [indented_tree, children indented_tree ! 1] indented_report =
     indented_report \<and>
   remarkLintNoHeadingIndent indented_tree empty_file = Inr indented_report"
proof -
  let ?st = "\<lparr>line = 1, column = 4, offset = 3\<rparr>"
  let ?quote = "children indented_tree ! 1"
  have p: "pointStart_v5 indented = Some ?st \<and> [indented_tree] \<noteq> [] \<and>
           ntype (last [indented_tree]) = ''root''" by code_simp
  have c: "(3::nat) \<noteq> 1" by simp
  have q: "[indented_tree, ?quote] = [] \<or> ntype (last [indented_tree, ?quote]) \<noteq> ''root''"
    by code_simp
  have v: "visited (Some ''heading'') indented_tree =
             [(indented, [indented_tree]), (quoted, [indented_tree, ?quote])]" by code_simp
  note t1 = no_heading_indent_root_only [of indented_tree empty_file indented ?st
      "[indented_tree]" 3]
  note t2 = no_heading_indent_root_only [of indented_tree indented_report quoted ?st
      "[indented_tree, ?quote]" 3]
  from t1 c have r: "heading_indent_reason 3 =
     ''Unexpected `'' @ string_of_nat 3 @
     ''` spaces before heading, expected `0` spaces, remove `'' @ string_of_nat 3 @ ''` spaces''"
    by blast
  have e: "(if (3::nat) \<noteq> 0
         then empty_file\<lparr>messages := messages empty_file @
                [\<lparr>reason = ''Unexpected `'' @ string_of_nat 3 @
     ''` spaces before heading, expected `0` spaces, remove `'' @ string_of_nat 3 @ ''` spaces'',
                  place = Place_point ?st ([indented_tree] @ [indented]), fatal = False\<rparr>]\<rparr>
         else empty_file) = indented_report" by code_simp
  have d: "column ?st - 1 = 3" by simp
  from t1 p have "no_heading_indent_visitor indented [indented_tree] empty_file =
        (if column ?st - 1 \<noteq> 0
         then empty_file\<lparr>messages := messages empty_file @
                [\<lparr>reason = heading_indent_reason (column ?st - 1),
                  place = Place_point ?st ([indented_tree] @ [indented]), fatal = False\<rparr>]\<rparr>
         else empty_file)" by blast
  then have a: "no_heading_indent_visitor indented [indented_tree] empty_file = indented_report"
    unfolding d r e .
  from t2 q have b: "no_heading_indent_visitor quoted [indented_tree, ?quote] indented_report =
      indented_report" by blast
  from t1 have "remarkLintNoHeadingIndent indented_tree empty_file =
     Inr (foldl (\<lambda>f x. no_heading_indent_visitor (fst x) (snd x) f) empty_file
            (visited (Some ''heading'') indented_tree))" by blast
  then have w: "remarkLintNoHeadingIndent indented_tree empty_file = Inr indented_report"
    unfolding v foldl_Cons foldl_Nil fst_conv snd_conv a b .
  from a b w show ?thesis by blast
qed

section \<open>The normalized text of a heading\<close>















section \<open>Definition spacing\<close>

lemma definition_spacing_visitor_cases:
  assumes "ntype node = ''definition'' \<or> ntype node = ''footnoteDefinition''"
    and "\<not> generated node"
  shows "definition_spacing_visitor value node file =
     (case match_label (definition_text value node) of
        None \<Rightarrow> THROW TypeError file
      | Some g \<Rightarrow>
          CONTINUE (if consecutive_whitespace g
                    then message ''Do not use consecutive whitespace in definition labels''
                           (Place_node node) file
                    else file))"
  using assms
  by (auto simp: definition_spacing_visitor_def definition_text_def Let_def split: option.splits)

lemma definition_spacing_visitor_throw:
  "(\<exists>e f. definition_spacing_visitor value n file = THROW e f) = unmatched_definition value n"
  by (auto simp: definition_spacing_visitor_def definition_text_def unmatched_definition_def
      Let_def split: option.splits)

lemma definition_spacing_visitor_result:
  "definition_spacing_visitor value n file = THROW TypeError file \<or>
   (\<exists>f. definition_spacing_visitor value n file = CONTINUE f)"
  by (auto simp: definition_spacing_visitor_def Let_def split: option.splits)

lemma definition_spacing_run_throws:
  "(\<exists>f. run (\<lambda>n ps. definition_spacing_visitor value n) xs file = THROW TypeError f) =
     (\<exists>x\<in>set xs. unmatched_definition value (fst x))"
proof (induction xs arbitrary: "file")
  case Nil
  then show ?case by simp
next
  case (Cons x xs)
  show ?case
  proof (cases "unmatched_definition value (fst x)")
    case True
    then obtain e f where "definition_spacing_visitor value (fst x) file = THROW e f"
      using definition_spacing_visitor_throw by blast
    with definition_spacing_visitor_result [of "value" "fst x" "file"]
    have "definition_spacing_visitor value (fst x) file = THROW TypeError file" by auto
    with True show ?thesis by simp
  next
    case False
    then have "\<not> (\<exists>e f. definition_spacing_visitor value (fst x) file = THROW e f)"
      using definition_spacing_visitor_throw by blast
    with definition_spacing_visitor_result [of "value" "fst x" "file"]
    obtain f where "definition_spacing_visitor value (fst x) file = CONTINUE f" by auto
    with False Cons.IH [of f] show ?thesis by simp
  qed
qed

lemma definition_spacing_rule_throws:
  "(\<exists>f. remarkLintDefinitionSpacing tree file = Inl (TypeError, f)) =
     (\<exists>n\<in>set (map fst (preorder [] tree)). unmatched_definition (contents file) n)"
proof -
  have "(\<exists>f. remarkLintDefinitionSpacing tree file = Inl (TypeError, f)) =
        (\<exists>f. run (\<lambda>n ps. definition_spacing_visitor (contents file) n) (preorder [] tree) file =
              THROW TypeError f)"
    by (auto simp: remarkLintDefinitionSpacing_def visit_def visitParents_def
        visitParents_node_run type_test_def finish_def Let_def split: visit_result.splits)
  then show ?thesis by (simp add: definition_spacing_run_throws)
qed

lemma match_label_empty: "match_label (''[]'' @ rest) = None"
  by (simp add: match_label_def is_space_def label_first_def)

text \<open>
  Claim C10. For a definition or footnote definition that is not generated, the visitor
  takes group 1 of the match of the label pattern on the source text between the node's
  offsets without a guard: when the text does not match, as with an empty label, it throws
  a type error, adding no message; when it matches, it returns, with one message exactly
  when the label holds two white space characters in a row. The rule as a whole throws the
  type error exactly when the tree holds such a node whose text does not match.
\<close>

theorem definition_spacing_unguarded_match:
  "((ntype node = ''definition'' \<or> ntype node = ''footnoteDefinition'') \<and> \<not> generated node \<longrightarrow>
      definition_spacing_visitor value node file =
        (case match_label (slice value (offset (pointStart node)) (offset (pointEnd node))) of
           None \<Rightarrow> THROW TypeError file
         | Some g \<Rightarrow>
             CONTINUE (if consecutive_whitespace g
                       then message ''Do not use consecutive whitespace in definition labels''
                              (Place_node node) file
                       else file))) \<and>
   (\<exists>f. remarkLintDefinitionSpacing tree file = Inl (TypeError, f)) =
     (\<exists>n\<in>set (map fst (preorder [] tree)).
        (ntype n = ''definition'' \<or> ntype n = ''footnoteDefinition'') \<and> \<not> generated n \<and>
        match_label (slice (contents file) (offset (pointStart n)) (offset (pointEnd n))) = None) \<and>
   match_label (''[]'' @ rest) = None"
proof (intro conjI impI)
  assume "(ntype node = ''definition'' \<or> ntype node = ''footnoteDefinition'') \<and> \<not> generated node"
  then show "definition_spacing_visitor value node file =
        (case match_label (slice value (offset (pointStart node)) (offset (pointEnd node))) of
           None \<Rightarrow> THROW TypeError file
         | Some g \<Rightarrow>
             CONTINUE (if consecutive_whitespace g
                       then message ''Do not use consecutive whitespace in definition labels''
                              (Place_node node) file
                       else file))"
    using definition_spacing_visitor_cases [of node "value" "file"]
    by (simp add: definition_text_def)
next
  show "(\<exists>f. remarkLintDefinitionSpacing tree file = Inl (TypeError, f)) =
     (\<exists>n\<in>set (map fst (preorder [] tree)).
        (ntype n = ''definition'' \<or> ntype n = ''footnoteDefinition'') \<and> \<not> generated n \<and>
        match_label (slice (contents file) (offset (pointStart n)) (offset (pointEnd n))) = None)"
    using definition_spacing_rule_throws [of tree "file"]
    by (simp add: unmatched_definition_def definition_text_def)
next
  show "match_label (''[]'' @ rest) = None" by (rule match_label_empty)
qed

text \<open>The theorem at a definition over the text \<open>[]: x\<close>, where the rule throws, and at one
  over \<open>[a  b]: x\<close>, where it reports the label.\<close>

theorem definition_spacing_unguarded_match_witness:
  "match_label (contents empty_label_file) = None \<and>
   definition_spacing_visitor (contents empty_label_file) (definition_node 5) empty_label_file =
     THROW TypeError empty_label_file \<and>
   (\<exists>f. remarkLintDefinitionSpacing (root_node [definition_node 5]) empty_label_file =
          Inl (TypeError, f)) \<and>
   definition_spacing_visitor (contents spaced_label_file) (definition_node 9) spaced_label_file =
     CONTINUE (message ''Do not use consecutive whitespace in definition labels''
                 (Place_node (definition_node 9)) spaced_label_file)"
proof -
  have d: "(ntype (definition_node 5) = ''definition'' \<or>
            ntype (definition_node 5) = ''footnoteDefinition'') \<and>
           \<not> generated (definition_node 5)"
    "(ntype (definition_node 9) = ''definition'' \<or>
      ntype (definition_node 9) = ''footnoteDefinition'') \<and>
     \<not> generated (definition_node 9)"
    by code_simp+
  have s5: "slice (contents empty_label_file) (offset (pointStart (definition_node 5)))
              (offset (pointEnd (definition_node 5))) = ''[]: x''" by code_simp
  have s9: "slice (contents spaced_label_file) (offset (pointStart (definition_node 9)))
              (offset (pointEnd (definition_node 9))) = ''[a  b]: x''" by code_simp
  have m5: "match_label ''[]: x'' = None" by code_simp
  have m9: "match_label ''[a  b]: x'' = Some ''a  b''" by code_simp
  have w: "consecutive_whitespace ''a  b''" by code_simp
  have c: "contents empty_label_file = ''[]: x''" by code_simp
  have i: "definition_node 5 \<in> set (map fst (preorder [] (root_node [definition_node 5])))"
    by code_simp
  note t5 = definition_spacing_unguarded_match [of "definition_node 5"
      "contents empty_label_file" empty_label_file "root_node [definition_node 5]" "[]"]
  note t9 = definition_spacing_unguarded_match [of "definition_node 9"
      "contents spaced_label_file" spaced_label_file "root_node [definition_node 9]" "[]"]
  from t5 d(1) have a: "definition_spacing_visitor (contents empty_label_file) (definition_node 5)
      empty_label_file = THROW TypeError empty_label_file"
    by (simp add: s5 m5)
  from d(1) s5 m5 i have "\<exists>n\<in>set (map fst (preorder [] (root_node [definition_node 5]))).
        (ntype n = ''definition'' \<or> ntype n = ''footnoteDefinition'') \<and> \<not> generated n \<and>
        match_label (slice (contents empty_label_file) (offset (pointStart n))
          (offset (pointEnd n))) = None"
    by (intro bexI [of _ "definition_node 5"]) simp_all
  with t5 have b: "\<exists>f. remarkLintDefinitionSpacing (root_node [definition_node 5])
      empty_label_file = Inl (TypeError, f)" by blast
  from t9 d(2) have e: "definition_spacing_visitor (contents spaced_label_file)
      (definition_node 9) spaced_label_file =
     CONTINUE (message ''Do not use consecutive whitespace in definition labels''
                 (Place_node (definition_node 9)) spaced_label_file)"
    by (simp add: s9 m9 w)
  from a b e m5 c show ?thesis by simp
qed

section \<open>No state is shared between runs\<close>

text \<open>A traversal commutes with a change of the state that its visitor commutes with, and
  keeps what its visitor keeps.\<close>

lemma run_map:
  assumes "\<And>n ps s. visitor n ps (g s) = map_visit_result g (visitor n ps s)"
  shows "run visitor xs (g s) = map_visit_result g (run visitor xs s)"
  by (induction xs arbitrary: s) (auto simp: assms split: visit_result.splits)

lemma run_invariant:
  assumes "\<And>n ps s. h (state_of (visitor n ps s)) = h s"
  shows "h (state_of (run visitor xs s)) = h s"
proof (induction xs arbitrary: s)
  case Nil
  then show ?case by simp
next
  case (Cons x xs)
  show ?case
  proof (cases "visitor (fst x) (snd x) s")
    case (CONTINUE s')
    with assms [of "fst x" "snd x" s] Cons.IH [of s'] show ?thesis by simp
  next
    case (EXIT s')
    with assms [of "fst x" "snd x" s] show ?thesis by simp
  next
    case (THROW e s')
    with assms [of "fst x" "snd x" s] show ?thesis by simp
  qed
qed

lemma finish_map:
  assumes "\<And>s. f (g s) = p (f s)"
  shows "finish f (map_visit_result g r) = map_sum (map_prod id p) p (finish f r)"
  by (cases r) (simp_all add: finish_def assms)

lemma file_of_finish: "file_of (finish f r) = f (state_of r)"
  by (cases r) (simp_all add: finish_def file_of_def)

lemma message_prepend: "message r p (prepend ms f) = prepend ms (message r p f)"
  by (simp add: message_def prepend_def)

lemma erase_message: "erase (message r p f) = erase f"
  by (simp add: message_def erase_def)

lemma contents_prepend: "contents (prepend ms f) = contents f"
  by (simp add: prepend_def)

lemma prepend_erase: "prepend (messages f) (erase f) = f"
  by (simp add: prepend_def erase_def)

lemma file_of_map: "file_of (map_sum (map_prod id g) g r) = g (file_of r)"
  by (cases r) (auto simp: file_of_def)

lemma thrown_map: "thrown (map_sum (map_prod id g) g r) = thrown r"
  by (cases r) (auto simp: thrown_def)

text \<open>A rule that reads nothing of the messages already in its file adds the same messages,
  and throws the same error, when it is run again on the file its first run left.\<close>

lemma twice_same:
  assumes "independent_of_messages rule"
  shows "new_messages (file_of (rule file)) (rule (file_of (rule file))) =
           new_messages file (rule file) \<and>
         thrown (rule (file_of (rule file))) = thrown (rule file)"
proof -
  let ?r0 = "rule (erase file)"
  let ?d = "messages (file_of ?r0)"
  from assms have a: "\<And>ms f. rule (prepend ms f) =
      map_sum (map_prod id (prepend ms)) (prepend ms) (rule f)"
    and b: "\<And>f. erase (file_of (rule f)) = erase f"
    by (simp_all add: independent_of_messages_def)
  have r1: "rule file =
      map_sum (map_prod id (prepend (messages file))) (prepend (messages file)) ?r0"
    using a [of "messages file" "erase file"] by (simp add: prepend_erase)
  let ?f1 = "file_of (rule file)"
  have f1: "?f1 = prepend (messages file) (file_of ?r0)" by (simp add: r1 file_of_map)
  have m1: "messages ?f1 = messages file @ ?d" by (simp add: f1 prepend_def)
  have e1: "erase ?f1 = erase file" using b [of "file"] .
  have r2: "rule ?f1 =
      map_sum (map_prod id (prepend (messages ?f1))) (prepend (messages ?f1)) ?r0"
    using a [of "messages ?f1" "erase file"] prepend_erase [of ?f1] by (simp add: e1)
  have m2: "messages (file_of (rule ?f1)) = messages ?f1 @ ?d"
    by (subst r2) (simp add: file_of_map prepend_def)
  have "new_messages ?f1 (rule ?f1) = ?d" by (simp add: new_messages_def m2)
  moreover have "new_messages file (rule file) = ?d" by (simp add: new_messages_def m1)
  moreover have "thrown (rule ?f1) = thrown ?r0" by (subst r2) (simp add: thrown_map)
  moreover have "thrown (rule file) = thrown ?r0" by (subst r1) (simp add: thrown_map)
  ultimately show ?thesis by simp
qed

text \<open>The five rules read nothing of the messages already in the file: each creates its
  state at the start of the run and only appends messages.\<close>

lemma dup_visitor_prepend:
  "no_duplicate_headings_visitor n (s\<lparr>dup_file := prepend ms (dup_file s)\<rparr>) =
   (no_duplicate_headings_visitor n s)
     \<lparr>dup_file := prepend ms (dup_file (no_duplicate_headings_visitor n s))\<rparr>"
  by (simp add: no_duplicate_headings_visitor_def Let_def message_prepend split: option.splits)

lemma dup_visitor_erase:
  "erase (dup_file (no_duplicate_headings_visitor n s)) = erase (dup_file s)"
  by (simp add: no_duplicate_headings_visitor_def Let_def erase_message split: option.splits)

lemma dup_independent:
  "independent_of_messages (remarkLintNoDuplicateHeadingsInSection tree)"
proof -
  let ?v = "\<lambda>(n::node) (ps::node list) s. CONTINUE (no_duplicate_headings_visitor n s)"
  let ?xs = "filter (\<lambda>x. type_test (Some ''heading'') (fst x)) (preorder [] tree)"
  have p: "\<And>ms xs s. run ?v xs (s\<lparr>dup_file := prepend ms (dup_file s)\<rparr>) =
        map_visit_result (\<lambda>s. s\<lparr>dup_file := prepend ms (dup_file s)\<rparr>) (run ?v xs s)"
    by (rule run_map) (simp add: dup_visitor_prepend)
  have e: "\<And>xs s. erase (dup_file (state_of (run ?v xs s))) = erase (dup_file s)"
    by (rule run_invariant) (simp add: dup_visitor_erase)
  show ?thesis
    unfolding independent_of_messages_def remarkLintNoDuplicateHeadingsInSection_def visit_def
      visitParents_def visitParents_node_run
  proof (intro conjI allI)
    fix ms f
    have "\<lparr>stack = [], dup_file = prepend ms f\<rparr> =
          \<lparr>stack = [], dup_file = f\<rparr>
            \<lparr>dup_file := prepend ms (dup_file \<lparr>stack = [], dup_file = f\<rparr>)\<rparr>"
      by simp
    then show "finish dup_file (run ?v ?xs \<lparr>stack = [], dup_file = prepend ms f\<rparr>) =
          map_sum (map_prod id (prepend ms)) (prepend ms)
            (finish dup_file (run ?v ?xs \<lparr>stack = [], dup_file = f\<rparr>))"
      by (simp only: p) (simp add: finish_map)
  next
    fix f
    show "erase (file_of (finish dup_file (run ?v ?xs \<lparr>stack = [], dup_file = f\<rparr>))) = erase f"
      by (simp add: file_of_finish e)
  qed
qed

lemma indent_visitor_prepend:
  "no_heading_indent_visitor n ps (prepend ms f) = prepend ms (no_heading_indent_visitor n ps f)"
  by (simp add: no_heading_indent_visitor_def Let_def message_prepend split: option.splits)

lemma indent_visitor_erase:
  "erase (no_heading_indent_visitor n ps f) = erase f"
  by (simp add: no_heading_indent_visitor_def Let_def erase_message split: option.splits)

lemma indent_independent:
  "independent_of_messages (remarkLintNoHeadingIndent tree)"
proof -
  let ?v = "\<lambda>n ps f. CONTINUE (no_heading_indent_visitor n ps f)"
  have p: "\<And>ms xs f. run ?v xs (prepend ms f) = map_visit_result (prepend ms) (run ?v xs f)"
    by (rule run_map) (simp add: indent_visitor_prepend)
  have e: "\<And>xs f. erase (state_of (run ?v xs f)) = erase f"
    by (rule run_invariant) (simp add: indent_visitor_erase)
  show ?thesis
    by (simp add: independent_of_messages_def remarkLintNoHeadingIndent_def
        visitParents_def visitParents_node_run p finish_map file_of_finish e)
qed

lemma first_visitor_prepend:
  "first_heading_level_visitor pref n (prepend ms f) =
     map_visit_result (prepend ms) (first_heading_level_visitor pref n f)"
  by (simp add: first_heading_level_visitor_def Let_def message_prepend split: option.splits)

lemma first_visitor_erase:
  "erase (state_of (first_heading_level_visitor pref n f)) = erase f"
  by (simp add: first_heading_level_visitor_def Let_def erase_message split: option.splits)

lemma first_independent:
  "independent_of_messages (\<lambda>file. remarkLintFirstHeadingLevel tree file option)"
proof -
  have p: "\<And>pref ms xs f. run (\<lambda>n ps. first_heading_level_visitor pref n) xs (prepend ms f) =
        map_visit_result (prepend ms) (run (\<lambda>n ps. first_heading_level_visitor pref n) xs f)"
    by (rule run_map) (simp add: first_visitor_prepend)
  have e: "\<And>pref xs f.
      erase (state_of (run (\<lambda>n ps. first_heading_level_visitor pref n) xs f)) = erase f"
    by (rule run_invariant) (simp add: first_visitor_erase)
  show ?thesis
    by (simp add: independent_of_messages_def remarkLintFirstHeadingLevel_def visit_def
        visitParents_def visitParents_node_run p finish_map file_of_finish e Let_def)
qed

lemma spacing_visitor_prepend:
  "definition_spacing_visitor value n (prepend ms f) =
     map_visit_result (prepend ms) (definition_spacing_visitor value n f)"
  by (simp add: definition_spacing_visitor_def Let_def message_prepend split: option.splits)

lemma spacing_visitor_erase:
  "erase (state_of (definition_spacing_visitor value n f)) = erase f"
  by (simp add: definition_spacing_visitor_def Let_def erase_message split: option.splits)

lemma spacing_independent:
  "independent_of_messages (remarkLintDefinitionSpacing tree)"
proof -
  have p: "\<And>value ms xs f. run (\<lambda>n ps. definition_spacing_visitor value n) xs (prepend ms f) =
        map_visit_result (prepend ms) (run (\<lambda>n ps. definition_spacing_visitor value n) xs f)"
    by (rule run_map) (simp add: spacing_visitor_prepend)
  have e: "\<And>value xs f.
      erase (state_of (run (\<lambda>n ps. definition_spacing_visitor value n) xs f)) = erase f"
    by (rule run_invariant) (simp add: spacing_visitor_erase)
  show ?thesis
    by (simp add: independent_of_messages_def remarkLintDefinitionSpacing_def visit_def
        visitParents_def visitParents_node_run p finish_map file_of_finish e Let_def
        contents_prepend)
qed

lemma list_item_prepend:
  "list_item value c (s\<lparr>style_file := prepend ms (style_file s)\<rparr>) =
   (list_item value c s)\<lparr>style_file := prepend ms (style_file (list_item value c s))\<rparr>"
  by (simp add: list_item_def Let_def message_prepend split: option.splits)

lemma list_item_erase:
  "erase (style_file (list_item value c s)) = erase (style_file s)"
  by (simp add: list_item_def Let_def erase_message split: option.splits)

lemma list_items_prepend:
  "list_items value cs (s\<lparr>style_file := prepend ms (style_file s)\<rparr>) =
   (list_items value cs s)\<lparr>style_file := prepend ms (style_file (list_items value cs s))\<rparr>"
  by (induction cs arbitrary: s) (simp_all add: list_item_prepend)

lemma list_items_erase:
  "erase (style_file (list_items value cs s)) = erase (style_file s)"
  by (induction cs arbitrary: s) (simp_all add: list_item_erase)

lemma style_visitor_prepend:
  "unordered_list_visitor value n (s\<lparr>style_file := prepend ms (style_file s)\<rparr>) =
   (unordered_list_visitor value n s)
     \<lparr>style_file := prepend ms (style_file (unordered_list_visitor value n s))\<rparr>"
  by (simp add: unordered_list_visitor_def list_items_prepend)

lemma style_visitor_erase:
  "erase (style_file (unordered_list_visitor value n s)) = erase (style_file s)"
  by (simp add: unordered_list_visitor_def list_items_erase)

lemma fail_prepend: "fail r (prepend ms f) = map_prod id (prepend ms) (fail r f)"
  by (simp add: fail_def prepend_def Let_def)

lemma erase_fail: "erase (snd (fail r f)) = erase f"
  by (simp add: fail_def erase_def Let_def)

lemma style_independent:
  "independent_of_messages (\<lambda>file. remarkLintUnorderedListMarkerStyle tree file option)"
proof -
  let ?v = "\<lambda>value (n::node) (ps::node list) s. CONTINUE (unordered_list_visitor value n s)"
  let ?pref = "case option of
                 JString s \<Rightarrow> if s \<noteq> ''consistent'' then Some s else None
               | _ \<Rightarrow> None"
  let ?xs = "filter (\<lambda>x. type_test (Some ''list'') (fst x)) (preorder [] tree)"
  have p: "\<And>value ms xs s. run (?v value) xs (s\<lparr>style_file := prepend ms (style_file s)\<rparr>) =
        map_visit_result (\<lambda>s. s\<lparr>style_file := prepend ms (style_file s)\<rparr>) (run (?v value) xs s)"
    by (rule run_map) (simp add: style_visitor_prepend)
  have e: "\<And>value xs s.
      erase (style_file (state_of (run (?v value) xs s))) = erase (style_file s)"
    by (rule run_invariant) (simp add: style_visitor_erase)
  have i: "\<And>pref ms f. \<lparr>preferred = pref, style_file = prepend ms f\<rparr> =
          \<lparr>preferred = pref, style_file = f\<rparr>
            \<lparr>style_file := prepend ms (style_file \<lparr>preferred = pref, style_file = f\<rparr>)\<rparr>"
    by simp
  have r: "\<And>f. remarkLintUnorderedListMarkerStyle tree f option =
      (if styles (property_key ?pref) \<noteq> Some True
       then Inl (fail (marker_style_fail_reason (property_key ?pref)) f)
       else finish style_file
              (run (?v (contents f)) ?xs \<lparr>preferred = ?pref, style_file = f\<rparr>))"
    by (simp add: remarkLintUnorderedListMarkerStyle_def visit_def visitParents_def
        visitParents_node_run Let_def)
  show ?thesis
  proof (cases "styles (property_key ?pref) \<noteq> Some True")
    case True
    have "\<And>r f. file_of (Inl (fail r f)) = snd (fail r f)"
      by (simp add: file_of_def split: prod.splits)
    with True show ?thesis
      by (simp add: independent_of_messages_def r fail_prepend erase_fail)
  next
    case False
    have a: "\<And>ms f.
        finish style_file
          (run (?v (contents f)) ?xs \<lparr>preferred = ?pref, style_file = prepend ms f\<rparr>) =
        map_sum (map_prod id (prepend ms)) (prepend ms)
          (finish style_file
             (run (?v (contents f)) ?xs \<lparr>preferred = ?pref, style_file = f\<rparr>))"
      by (simp only: i p) (simp add: finish_map)
    from False show ?thesis
      by (simp add: independent_of_messages_def r contents_prepend a file_of_finish e)
  qed
qed

lemma independent_same_on_rerun:
  assumes "independent_of_messages rule"
  shows "same_on_rerun rule file"
proof -
  from assms have "erase (file_of (rule file)) = erase file"
    by (simp add: independent_of_messages_def)
  then have "contents (erase (file_of (rule file))) = contents (erase file)" by simp
  then have "contents (file_of (rule file)) = contents file" by (simp add: erase_def)
  with twice_same [OF assms, of "file"] show ?thesis by (simp add: same_on_rerun_def)
qed

text \<open>
  Claim C9. Each of the five rules, run a second time on the same tree with the same option
  and on the file its first run left (the same source text, now holding the first run's
  messages), adds the same messages in the same order and throws the same error, if any:
  the stack of scopes and the preferred marker are created inside the run, and nothing a
  rule reads survives it.
\<close>

theorem rules_same_on_rerun:
  "same_on_rerun (remarkLintNoDuplicateHeadingsInSection tree) file \<and>
   same_on_rerun (remarkLintNoHeadingIndent tree) file \<and>
   same_on_rerun (\<lambda>f. remarkLintFirstHeadingLevel tree f option) file \<and>
   same_on_rerun (\<lambda>f. remarkLintUnorderedListMarkerStyle tree f option) file \<and>
   same_on_rerun (remarkLintDefinitionSpacing tree) file"
  by (intro conjI independent_same_on_rerun dup_independent indent_independent
      first_independent style_independent spacing_independent)

text \<open>The theorem at the list \<open>* Foo\<close>, \<open>- Bar\<close>, \<open>+ Baz\<close>: the second run of the marker rule
  adds the two messages of the first.\<close>

theorem rules_same_on_rerun_witness:
  "new_messages markers_file
     (remarkLintUnorderedListMarkerStyle markers_tree markers_file JUndefined) =
     [\<lparr>reason = ''Marker style should be `*`'', place = Place_node (markers_items ! 1),
       fatal = False\<rparr>,
      \<lparr>reason = ''Marker style should be `*`'', place = Place_node (markers_items ! 2),
       fatal = False\<rparr>] \<and>
   new_messages
     (file_of (remarkLintUnorderedListMarkerStyle markers_tree markers_file JUndefined))
     (remarkLintUnorderedListMarkerStyle markers_tree
        (file_of (remarkLintUnorderedListMarkerStyle markers_tree markers_file JUndefined))
        JUndefined) =
     [\<lparr>reason = ''Marker style should be `*`'', place = Place_node (markers_items ! 1),
       fatal = False\<rparr>,
      \<lparr>reason = ''Marker style should be `*`'', place = Place_node (markers_items ! 2),
       fatal = False\<rparr>]"
proof -
  have f: "new_messages markers_file
     (remarkLintUnorderedListMarkerStyle markers_tree markers_file JUndefined) =
     [\<lparr>reason = ''Marker style should be `*`'', place = Place_node (markers_items ! 1),
       fatal = False\<rparr>,
      \<lparr>reason = ''Marker style should be `*`'', place = Place_node (markers_items ! 2),
       fatal = False\<rparr>]" by code_simp
  from rules_same_on_rerun [of markers_tree markers_file JUndefined]
  have "same_on_rerun (\<lambda>f. remarkLintUnorderedListMarkerStyle markers_tree f JUndefined)
          markers_file" by blast
  then have "new_messages
     (file_of (remarkLintUnorderedListMarkerStyle markers_tree markers_file JUndefined))
     (remarkLintUnorderedListMarkerStyle markers_tree
        (file_of (remarkLintUnorderedListMarkerStyle markers_tree markers_file JUndefined))
        JUndefined) =
     new_messages markers_file
       (remarkLintUnorderedListMarkerStyle markers_tree markers_file JUndefined)"
    by (simp add: same_on_rerun_def)
  with f show ?thesis by simp
qed

end
